theory Spec2Isabelle
  imports Complex_Main "HOL-Library.Word" "HOL-Library.Log_Nat"
begin

section \<open>JavaScript strings\<close>

text \<open>
  A JavaScript string is a sequence of 16-bit code units. Literals of the source are
  written through \<open>utf16\<close>, which embeds an ASCII text unit by unit.
\<close>

type_synonym unit16 = "16 word"
type_synonym jsstring = "unit16 list"

definition utf16 :: "string \<Rightarrow> jsstring" where
  "utf16 s = map (\<lambda>c. of_char c) s"

text \<open>
  The class \<^verbatim>\<open>\s\<close> of a regular expression, which is also the set of code units that
  \<^verbatim>\<open>String.prototype.trim\<close> removes and that \<^verbatim>\<open>Number\<close> skips around a numeric
  literal: WhiteSpace (TAB, VT, FF, SP, NBSP, ZWNBSP and the space separators) and
  LineTerminator (LF, CR, LS, PS).
\<close>

definition is_space :: "unit16 \<Rightarrow> bool" where
  "is_space c \<longleftrightarrow>
     c = 0x09 \<or> c = 0x0A \<or> c = 0x0B \<or> c = 0x0C \<or> c = 0x0D \<or> c = 0x20 \<or> c = 0xA0 \<or>
     c = 0x1680 \<or> (0x2000 \<le> c \<and> c \<le> 0x200A) \<or> c = 0x2028 \<or> c = 0x2029 \<or>
     c = 0x202F \<or> c = 0x205F \<or> c = 0x3000 \<or> c = 0xFEFF"

text \<open>The class \<^verbatim>\<open>\d\<close> (without the unicode flag): the ten ASCII digits.\<close>

definition is_digit :: "unit16 \<Rightarrow> bool" where
  "is_digit c \<longleftrightarrow> 0x30 \<le> c \<and> c \<le> 0x39"

text \<open>\<^verbatim>\<open>String.prototype.trim\<close>.\<close>

definition trim :: "jsstring \<Rightarrow> jsstring" where
  "trim s = rev (dropWhile is_space (rev (dropWhile is_space s)))"

text \<open>
  \<^verbatim>\<open>String.prototype.split\<close> with a one-unit separator: the segments between the
  separators, one more than there are separators (the empty string gives one empty segment).
\<close>

fun split_on :: "unit16 \<Rightarrow> jsstring \<Rightarrow> jsstring list" where
  "split_on sep [] = [[]]"
| "split_on sep (c # cs) =
     (if c = sep then [] # split_on sep cs
      else (case split_on sep cs of
              seg # segs \<Rightarrow> (c # seg) # segs
            | [] \<Rightarrow> [[c]]))"

text \<open>\<^verbatim>\<open>Array.prototype.join\<close>.\<close>

fun join :: "jsstring \<Rightarrow> jsstring list \<Rightarrow> jsstring" where
  "join sep [] = []"
| "join sep [x] = x"
| "join sep (x # y # ys) = x @ sep @ join sep (y # ys)"

text \<open>
  \<^verbatim>\<open>RegExp.prototype.test\<close> for a pattern that is a literal text: the text occurs
  somewhere in the string.
\<close>

fun contains_text :: "jsstring \<Rightarrow> jsstring \<Rightarrow> bool" where
  "contains_text pat [] = (pat = [])"
| "contains_text pat (c # cs) = (take (length pat) (c # cs) = pat \<or> contains_text pat cs)"


section \<open>JavaScript numbers\<close>

text \<open>
  A Number is an IEEE 754 binary64 value. A finite one is represented by the rational it
  denotes; the two zeros are not told apart (the program only prints, compares with
  \<^verbatim>\<open>===\<close> and serialises its numbers, and none of these separates \<^verbatim>\<open>-0\<close>
  from \<^verbatim>\<open>0\<close>).
\<close>

datatype jsnum = NaN | PosInfinity | NegInfinity | Finite rat

definition negate :: "jsnum \<Rightarrow> jsnum" where
  "negate x =
     (case x of
        NaN \<Rightarrow> NaN
      | PosInfinity \<Rightarrow> NegInfinity
      | NegInfinity \<Rightarrow> PosInfinity
      | Finite q \<Rightarrow> Finite (- q))"

definition round_half_even :: "rat \<Rightarrow> int" where
  "round_half_even x =
     (let f = \<lfloor>x\<rfloor>; d = x - of_int f
      in if d < 1 / 2 then f else if 1 / 2 < d then f + 1 else if even f then f else f + 1)"

text \<open>\<open>ilog b n\<close> is the integer logarithm \<open>\<lfloor>log\<^sub>b n\<rfloor>\<close> of a positive integer.\<close>

function ilog :: "int \<Rightarrow> int \<Rightarrow> int" where
  "ilog b n = (if b < 2 \<or> n < b then 0 else 1 + ilog b (n div b))"
  by pat_completeness auto
termination
  by (relation "measure (\<lambda>(b, n). nat n)") (auto intro!: int_div_less_self simp: nat_less_iff)

declare ilog.simps [simp del]

text \<open>\<open>floor_log b q\<close> is \<open>\<lfloor>log\<^sub>b q\<rfloor>\<close> for a positive rational.\<close>

definition floor_log :: "int \<Rightarrow> rat \<Rightarrow> int" where
  "floor_log b q =
     (let (a, d) = quotient_of q;
          e0 = ilog b a - ilog b d
      in if of_int b powi e0 \<le> q then e0 else e0 - 1)"

text \<open>
  The Number value for a mathematical value (ECMA-262, 6.1.6.1): the closest binary64
  value, a tie going to the even significand, and infinity from \<open>2\<^sup>1\<^sup>0\<^sup>2\<^sup>4\<close> on. For
  \<open>2\<^sup>e \<le> q < 2\<^sup>e\<^sup>+\<^sup>1\<close> the neighbouring values are \<open>2\<^sup>p\<close> apart, with \<open>p = e - 52\<close>
  and never below \<open>-1074\<close> (the subnormal range); the result \<open>m * 2\<^sup>p\<close> reaches
  \<open>2\<^sup>1\<^sup>0\<^sup>2\<^sup>4\<close> exactly when \<open>p + \<lfloor>log\<^sub>2 m\<rfloor>\<close> reaches 1024.
\<close>

definition number_value_pos :: "rat \<Rightarrow> jsnum" where
  "number_value_pos q =
     (let e = floor_log 2 q;
          p = max (e - 52) (- 1074);
          m = round_half_even (q / 2 powi p)
      in if 1024 \<le> p + ilog 2 m then PosInfinity
         else Finite (of_int m * 2 powi p))"

definition number_value :: "rat \<Rightarrow> jsnum" where
  "number_value q =
     (if q = 0 then Finite 0
      else if 0 < q then number_value_pos q
      else negate (number_value_pos (- q)))"

text \<open>The rationals that are Number values, and the values of the type \<^verbatim>\<open>number\<close>.\<close>

definition is_double :: "rat \<Rightarrow> bool" where
  "is_double q \<longleftrightarrow> number_value q = Finite q"

definition is_Number :: "jsnum \<Rightarrow> bool" where
  "is_Number x = (case x of Finite q \<Rightarrow> is_double q | _ \<Rightarrow> True)"

subsection \<open>\<^verbatim>\<open>Number(string)\<close>\<close>

text \<open>
  The value of a digit in a radix up to 16; 16 for a code unit that is no digit at all.
\<close>

definition digit_value :: "unit16 \<Rightarrow> int" where
  "digit_value c =
     (if 0x30 \<le> c \<and> c \<le> 0x39 then uint c - 48
      else if 0x61 \<le> c \<and> c \<le> 0x66 then uint c - 87
      else if 0x41 \<le> c \<and> c \<le> 0x46 then uint c - 55
      else 16)"

definition is_radix_digit :: "int \<Rightarrow> unit16 \<Rightarrow> bool" where
  "is_radix_digit radix c \<longleftrightarrow> digit_value c < radix"

definition digits_value :: "int \<Rightarrow> jsstring \<Rightarrow> int" where
  "digits_value radix ds = foldl (\<lambda>a c. radix * a + digit_value c) 0 ds"

text \<open>
  \<^verbatim>\<open>ExponentPart\<close>, optional: \<^verbatim>\<open>e\<close> or \<^verbatim>\<open>E\<close>, an optional sign and at least one
  digit. \<open>None\<close> when the text is neither empty nor an exponent part.
\<close>

definition ExponentPart :: "jsstring \<Rightarrow> int option" where
  "ExponentPart s =
     (case s of
        [] \<Rightarrow> Some 0
      | c # r \<Rightarrow>
          if c \<noteq> 0x65 \<and> c \<noteq> 0x45 then None
          else
            let neg = (r \<noteq> [] \<and> hd r = 0x2D);
                ds = (if r \<noteq> [] \<and> (hd r = 0x2B \<or> hd r = 0x2D) then tl r else r)
            in if ds = [] \<or> \<not> list_all is_digit ds then None
               else Some ((if neg then - 1 else 1) * digits_value 10 ds))"

text \<open>
  \<^verbatim>\<open>StrUnsignedDecimalLiteral\<close>: \<^verbatim>\<open>Infinity\<close>, or digits with an optional fraction
  and an optional exponent, where the digits before or after the point may be missing
  but not both. A text outside the grammar converts to NaN.
\<close>

definition StrUnsignedDecimalLiteral :: "jsstring \<Rightarrow> jsnum" where
  "StrUnsignedDecimalLiteral s =
     (if s = utf16 ''Infinity'' then PosInfinity
      else
        let ip = takeWhile is_digit s;
            r1 = dropWhile is_digit s;
            has_dot = (r1 \<noteq> [] \<and> hd r1 = 0x2E);
            fp = (if has_dot then takeWhile is_digit (tl r1) else []);
            r2 = (if has_dot then dropWhile is_digit (tl r1) else r1)
        in if ip = [] \<and> fp = [] then NaN
           else (case ExponentPart r2 of
                   None \<Rightarrow> NaN
                 | Some ex \<Rightarrow>
                     number_value
                       (of_int (digits_value 10 (ip @ fp)) * 10 powi (ex - int (length fp)))))"

text \<open>
  \<^verbatim>\<open>NonDecimalIntegerLiteral\<close>: \<^verbatim>\<open>0x\<close>, \<^verbatim>\<open>0o\<close> or \<^verbatim>\<open>0b\<close> (in either case)
  and at least one digit of the radix.
\<close>

definition NonDecimalIntegerLiteral :: "jsstring \<Rightarrow> int option" where
  "NonDecimalIntegerLiteral s =
     (case s of
        z # x # ds \<Rightarrow>
          if z \<noteq> 0x30 \<or> ds = [] then None
          else if (x = 0x78 \<or> x = 0x58) \<and> list_all (is_radix_digit 16) ds
            then Some (digits_value 16 ds)
          else if (x = 0x6F \<or> x = 0x4F) \<and> list_all (is_radix_digit 8) ds
            then Some (digits_value 8 ds)
          else if (x = 0x62 \<or> x = 0x42) \<and> list_all (is_radix_digit 2) ds
            then Some (digits_value 2 ds)
          else None
      | _ \<Rightarrow> None)"

text \<open>
  \<^verbatim>\<open>Number(value)\<close> for a string (StringToNumber): white space around the literal is
  skipped, the empty text is 0, and a text that is no \<^verbatim>\<open>StringNumericLiteral\<close> is NaN.
\<close>

definition Number :: "jsstring \<Rightarrow> jsnum" where
  "Number str =
     (let s = trim str
      in if s = [] then Finite 0
         else (case NonDecimalIntegerLiteral s of
                 Some v \<Rightarrow> number_value (of_int v)
               | None \<Rightarrow>
                   if hd s = 0x2B then StrUnsignedDecimalLiteral (tl s)
                   else if hd s = 0x2D then negate (StrUnsignedDecimalLiteral (tl s))
                   else StrUnsignedDecimalLiteral s))"

subsection \<open>\<^verbatim>\<open>Number::toString\<close>, radix 10\<close>

definition digit_char :: "int \<Rightarrow> unit16" where
  "digit_char d = of_int (48 + d)"

text \<open>The decimal digits of a natural number, most significant first.\<close>

function decimal_digits :: "int \<Rightarrow> jsstring" where
  "decimal_digits n =
     (if n < 10 then [digit_char n] else decimal_digits (n div 10) @ [digit_char (n mod 10)])"
  by pat_completeness auto
termination
  by (relation "measure nat") auto

declare decimal_digits.simps [simp del]

text \<open>
  Step 5 of \<^verbatim>\<open>Number::toString\<close> asks for integers \<open>n\<close>, \<open>k\<close>, \<open>s\<close> with
  \<open>k \<ge> 1\<close>, \<open>10\<^sup>k\<^sup>-\<^sup>1 \<le> s < 10\<^sup>k\<close>, the Number value for \<open>s * 10\<^sup>n\<^sup>-\<^sup>k\<close> being \<open>x\<close>,
  and \<open>k\<close> as small as possible; among several \<open>s\<close> the one closest to \<open>x\<close>, and the
  even one of two equally close.

  For a given \<open>k\<close>, and \<open>n0\<close> with \<open>10\<^sup>n\<^sup>0\<^sup>-\<^sup>1 \<le> x < 10\<^sup>n\<^sup>0\<close>, the two \<open>k\<close>-digit
  decimals next to \<open>x\<close> are \<open>lo * 10\<^sup>n\<^sup>0\<^sup>-\<^sup>k\<close> and \<open>hi * 10\<^sup>n\<^sup>0\<^sup>-\<^sup>k\<close>; conversion to a
  Number is monotone, so if any \<open>k\<close>-digit decimal converts to \<open>x\<close>, one of these two does.
  When \<open>hi\<close> is \<open>10\<^sup>k\<close> the decimal is \<open>10\<^sup>n\<^sup>0\<close>, written with \<open>n = n0 + 1\<close>.
\<close>

definition digits_candidate :: "rat \<Rightarrow> int \<Rightarrow> int \<Rightarrow> (int \<times> int \<times> int) option" where
  "digits_candidate q n0 k =
     (let scale = 10 powi (n0 - k);
          lo = \<lfloor>q / scale\<rfloor>;
          hi = lo + 1;
          ok_lo = (number_value (of_int lo * scale) = Finite q);
          ok_hi = (number_value (of_int hi * scale) = Finite q);
          d_lo = q - of_int lo * scale;
          d_hi = of_int hi * scale - q
      in if ok_lo \<and> (\<not> ok_hi \<or> d_lo < d_hi \<or> (d_lo = d_hi \<and> even lo)) then Some (n0, k, lo)
         else if ok_hi then
           (if hi = 10 ^ nat k then Some (n0 + 1, k, 10 ^ nat (k - 1)) else Some (n0, k, hi))
         else None)"

text \<open>The least \<open>k\<close> from \<open>k\<close> up to \<open>kmax\<close> that has a candidate.\<close>

function shortest_search :: "rat \<Rightarrow> int \<Rightarrow> int \<Rightarrow> int \<Rightarrow> (int \<times> int \<times> int) option" where
  "shortest_search q n0 k kmax =
     (if kmax < k then None
      else if digits_candidate q n0 k \<noteq> None then digits_candidate q n0 k
      else shortest_search q n0 (k + 1) kmax)"
  by pat_completeness auto
termination
  by (relation "measure (\<lambda>(q, n0, k, kmax). nat (kmax + 1 - k))") auto

declare shortest_search.simps [simp del]

text \<open>
  Every positive Number value is a multiple of \<open>2\<^sup>-\<^sup>1\<^sup>0\<^sup>7\<^sup>4\<close>, hence a decimal with at most
  1074 digits after the point: the search finds it at \<open>k = n0 + 1074\<close> at the latest
  (17 digits are enough in fact). The last case is reached by no Number value; it makes
  the function total on the rationals that are none.
\<close>

definition shortest_digits :: "rat \<Rightarrow> int \<times> int \<times> int" where
  "shortest_digits q =
     (let n0 = floor_log 10 q + 1
      in case shortest_search q n0 1 (n0 + 1074) of
           Some r \<Rightarrow> r
         | None \<Rightarrow> (n0, 1, \<lfloor>q / 10 powi (n0 - 1)\<rfloor>))"

text \<open>
  Steps 6 to 10: positional notation for \<open>-5 \<le> n \<le> 21\<close>, exponential otherwise.
\<close>

definition format_digits :: "int \<Rightarrow> int \<Rightarrow> int \<Rightarrow> jsstring" where
  "format_digits n k s =
     (let ds = decimal_digits s
      in if - 5 \<le> n \<and> n \<le> 21 then
           (if k \<le> n then ds @ replicate (nat (n - k)) 0x30
            else if 0 < n then take (nat n) ds @ [0x2E] @ drop (nat n) ds
            else [0x30, 0x2E] @ replicate (nat (- n)) 0x30 @ ds)
         else
           let e = n - 1;
               sign = (if e < 0 then 0x2D else 0x2B);
               es = decimal_digits \<bar>e\<bar>
           in if k = 1 then ds @ [0x65, sign] @ es
              else take 1 ds @ [0x2E] @ drop 1 ds @ [0x65, sign] @ es)"

definition Number_toString :: "jsnum \<Rightarrow> jsstring" where
  "Number_toString x =
     (case x of
        NaN \<Rightarrow> utf16 ''NaN''
      | PosInfinity \<Rightarrow> utf16 ''Infinity''
      | NegInfinity \<Rightarrow> utf16 ''-Infinity''
      | Finite q \<Rightarrow>
          if q = 0 then utf16 ''0''
          else if q < 0 then
            0x2D # (case shortest_digits (- q) of (n, k, s) \<Rightarrow> format_digits n k s)
          else (case shortest_digits q of (n, k, s) \<Rightarrow> format_digits n k s))"


section \<open>The scraper's parser module (\<^verbatim>\<open>apps/scraper/src/parser.ts\<close>)\<close>

record OrderInput =
  restaurantName :: jsstring
  totalPrice :: jsnum
  orderedAtText :: jsstring

record ScrapedOrder = OrderInput +
  sourceSignature :: jsstring

subsection \<open>\<^verbatim>\<open>pricePattern\<close> and \<^verbatim>\<open>parsePriceFromText\<close>\<close>

text \<open>
  \<^verbatim>\<open>const pricePattern = /\$\s*([\d,]+(?:\.\d{1,2})?)/;\<close>

  The optional group \<^verbatim>\<open>(?:\.\d{1,2})?\<close> at the start of a text: greedy, so a point
  and two digits where they stand, a point and one digit otherwise, and nothing when no
  digit follows a point.
\<close>

definition fraction_group :: "jsstring \<Rightarrow> jsstring" where
  "fraction_group r =
     (case r of
        p # d1 # rest \<Rightarrow>
          if p = 0x2E \<and> is_digit d1 then
            (case rest of
               d2 # _ \<Rightarrow> if is_digit d2 then [p, d1, d2] else [p, d1]
             | [] \<Rightarrow> [p, d1])
          else []
      | _ \<Rightarrow> [])"

definition is_digit_or_comma :: "unit16 \<Rightarrow> bool" where
  "is_digit_or_comma c \<longleftrightarrow> is_digit c \<or> c = 0x2C"

text \<open>
  One attempt of the matcher, at the start of a text; the result is capture group 1.
  After the dollar sign, \<^verbatim>\<open>\s*\<close> takes all the white space there is and
  \<^verbatim>\<open>[\d,]+\<close> all the digits and commas; giving back any of either cannot help the
  rest of the pattern, so the attempt fails exactly when no digit or comma stands there.
\<close>

definition pricePattern_at :: "jsstring \<Rightarrow> jsstring option" where
  "pricePattern_at t =
     (case t of
        [] \<Rightarrow> None
      | c # r \<Rightarrow>
          if c \<noteq> 0x24 then None
          else
            let r1 = dropWhile is_space r;
                body = takeWhile is_digit_or_comma r1
            in if body = [] then None
               else Some (body @ fraction_group (dropWhile is_digit_or_comma r1)))"

text \<open>
  \<^verbatim>\<open>fullText.match(pricePattern)\<close>: the attempt at the leftmost position that has one
  (the pattern has no \<^verbatim>\<open>g\<close> flag). \<open>None\<close> is \<^verbatim>\<open>null\<close>, \<open>Some g\<close> a match with
  \<open>match[1] = g\<close>.
\<close>

fun pricePattern_match :: "jsstring \<Rightarrow> jsstring option" where
  "pricePattern_match [] = None"
| "pricePattern_match (c # cs) =
     (case pricePattern_at (c # cs) of
        Some g \<Rightarrow> Some g
      | None \<Rightarrow> pricePattern_match cs)"

text \<open>
  The language of \<^verbatim>\<open>pricePattern\<close>, as the pattern has it: a \<^verbatim>\<open>$\<close>, any white
  space, one or more units that are digits or commas, and optionally a point with one or
  two digits. \<open>pricePattern_occurs s\<close> says that some part of \<open>s\<close> is in it.
\<close>

definition fraction_shape :: "jsstring \<Rightarrow> bool" where
  "fraction_shape fr \<longleftrightarrow>
     fr = [] \<or> (\<exists>d1. fr = [0x2E, d1] \<and> is_digit d1) \<or>
     (\<exists>d1 d2. fr = [0x2E, d1, d2] \<and> is_digit d1 \<and> is_digit d2)"

definition pricePattern_occurs :: "jsstring \<Rightarrow> bool" where
  "pricePattern_occurs s \<longleftrightarrow>
     (\<exists>pre ws body fr post.
        s = pre @ [0x24] @ ws @ body @ fr @ post \<and>
        list_all is_space ws \<and> body \<noteq> [] \<and> list_all is_digit_or_comma body \<and>
        fraction_shape fr)"

text \<open>
  \<^verbatim>\<open>
  export function parsePriceFromText(fullText: string): number | null {
    const match = fullText.match(pricePattern);
    if (!match) { return null; }
    const totalPrice = Number(match[1].replace(/,/g, ''));
    if (Number.isNaN(totalPrice)) { return null; }
    return totalPrice;
  }\<close>
\<close>

definition parsePriceFromText :: "jsstring \<Rightarrow> jsnum option" where
  "parsePriceFromText fullText =
     (case pricePattern_match fullText of
        None \<Rightarrow> None
      | Some g \<Rightarrow>
          let totalPrice = Number (filter (\<lambda>c. c \<noteq> 0x2C) g)
          in if totalPrice = NaN then None else Some totalPrice)"

subsection \<open>\<^verbatim>\<open>normalizeText\<close>\<close>

text \<open>
  \<^verbatim>\<open>value.replace(/\s+/g, ' ')\<close>: every maximal run of white space becomes one space.
\<close>

function collapse :: "jsstring \<Rightarrow> jsstring" where
  "collapse [] = []"
| "collapse (c # cs) =
     (if is_space c then 0x20 # collapse (dropWhile is_space cs) else c # collapse cs)"
  by pat_completeness auto
termination
  by (relation "measure length") (auto simp: length_dropWhile_le less_Suc_eq_le)

text \<open>
  \<^verbatim>\<open>
  export function normalizeText(value: string): string {
    return value.replace(/\s+/g, ' ').trim();
  }\<close>
\<close>

definition normalizeText :: "jsstring \<Rightarrow> jsstring" where
  "normalizeText v = trim (collapse v)"

subsection \<open>\<^verbatim>\<open>splitOrderedAtText\<close>\<close>

record OrderedDateTime =
  orderedDate :: jsstring
  orderedTime :: jsstring

text \<open>
  \<^verbatim>\<open>
  export function splitOrderedAtText(orderedAtText: string) {
    const segments = orderedAtText
      .split(',')
      .map((segment) => segment.trim())
      .filter((segment) => segment.length > 0);
    if (segments.length >= 3) {
      return {
        orderedDate: `${segments[0]}, ${segments[1]}`,
        orderedTime: segments.slice(2).join(', ')
      };
    }
    return { orderedDate: orderedAtText, orderedTime: '' };
  }\<close>
\<close>

definition splitOrderedAtText :: "jsstring \<Rightarrow> OrderedDateTime" where
  "splitOrderedAtText orderedAtText' =
     (let segments =
            filter (\<lambda>segment. length segment > 0) (map trim (split_on 0x2C orderedAtText'))
      in if length segments \<ge> 3 then
           \<lparr>orderedDate = segments ! 0 @ utf16 '', '' @ segments ! 1,
            orderedTime = join (utf16 '', '') (drop 2 segments)\<rparr>
         else \<lparr>orderedDate = orderedAtText', orderedTime = []\<rparr>)"

subsection \<open>\<^verbatim>\<open>buildScrapedOrder\<close>\<close>

text \<open>
  \<^verbatim>\<open>
  export function buildScrapedOrder(input): ScrapedOrder {
    return {
      restaurantName: input.restaurantName,
      totalPrice: input.totalPrice,
      orderedAtText: input.orderedAtText,
      sourceSignature: `${input.restaurantName}__${input.orderedAtText}__${input.totalPrice}`
    };
  }\<close>

  A template literal converts the number with \<^verbatim>\<open>Number::toString\<close>.
\<close>

definition buildScrapedOrder :: "OrderInput \<Rightarrow> ScrapedOrder" where
  "buildScrapedOrder input =
     \<lparr>restaurantName = restaurantName input,
      totalPrice = totalPrice input,
      orderedAtText = orderedAtText input,
      sourceSignature =
        restaurantName input @ utf16 ''__'' @ orderedAtText input @ utf16 ''__''
          @ Number_toString (totalPrice input)\<rparr>"


section \<open>The scraper (\<^verbatim>\<open>apps/scraper/src/index.ts\<close>)\<close>

subsection \<open>Debug logging\<close>

text \<open>
  \<^verbatim>\<open>process.env\<close> maps a variable's name to its text, when it is set.

  \<^verbatim>\<open>const debugScraper = (process.env.DEBUG_SCRAPER ?? '1') !== '0';\<close>
\<close>

type_synonym env = "jsstring \<rightharpoonup> jsstring"

definition debugScraper :: "env \<Rightarrow> bool" where
  "debugScraper process_env =
     ((case process_env (utf16 ''DEBUG_SCRAPER'') of None \<Rightarrow> utf16 ''1'' | Some v \<Rightarrow> v)
        \<noteq> utf16 ''0'')"

text \<open>
  The console is the list of the lines printed so far; a line is the text and the
  object printed after it, if any. The two objects the scraper prints are the fields of
  a skipped row and the summary of the extraction.
\<close>

datatype details =
  SkippedRow jsstring jsstring jsstring
| Summary nat nat

type_synonym console_line = "jsstring \<times> details option"

text \<open>
  \<^verbatim>\<open>
  function debugLog(message: string, details?: unknown): void {
    if (!debugScraper) { return; }
    if (details !== undefined) {
      console.log(`[scraper:debug] ${message}`, details);
      return;
    }
    console.log(`[scraper:debug] ${message}`);
  }\<close>

  The module constant \<^verbatim>\<open>debugScraper\<close> is the first argument; the result is what the
  call prints.
\<close>

definition debugLog :: "bool \<Rightarrow> jsstring \<Rightarrow> details option \<Rightarrow> console_line list" where
  "debugLog debug message details =
     (if \<not> debug then []
      else (case details of
              Some d \<Rightarrow> [(utf16 ''[scraper:debug] '' @ message, Some d)]
            | None \<Rightarrow> [(utf16 ''[scraper:debug] '' @ message, None)]))"

subsection \<open>\<^verbatim>\<open>expandOrdersTable\<close>\<close>

text \<open>
  The page is seen through \<^verbatim>\<open>page.locator(rowSelector).count()\<close> only: \<open>counts 0\<close>
  is what the read before the loop returns and \<open>counts i\<close> what the read of iteration
  \<open>i\<close> returns, after the nudge and the pause of that iteration. (A row count prints as
  its decimal digits.)

  \<^verbatim>\<open>
  let previousCount = await page.locator(rowSelector).count();
  let stablePasses = 0;
  for (let iteration = 1; iteration <= 240; iteration += 1) {
    await nudgeToBottom(page);
    await page.waitForTimeout(1_500);
    const nextCount = await page.locator(rowSelector).count();
    debugLog(`expand: iteration=${iteration}, rows(before=${previousCount}, after=${nextCount})`);
    if (nextCount > previousCount) {
      previousCount = nextCount;
      stablePasses = 0;
      continue;
    }
    stablePasses += 1;
    if (stablePasses >= 3) { break; }
  }
  debugLog('expand: waiting 10s settle before extraction');
  await page.waitForTimeout(10_000);\<close>
\<close>

definition expand_line :: "bool \<Rightarrow> nat \<Rightarrow> nat \<Rightarrow> nat \<Rightarrow> console_line list" where
  "expand_line debug iteration previousCount nextCount =
     debugLog debug
       (utf16 ''expand: iteration='' @ decimal_digits (int iteration)
          @ utf16 '', rows(before='' @ decimal_digits (int previousCount)
          @ utf16 '', after='' @ decimal_digits (int nextCount) @ utf16 '')'')
       None"

record expand_state =
  iterations :: nat
  previousCount :: nat
  stablePasses :: nat
  console :: "console_line list"

text \<open>
  The loop from the test of \<open>iteration\<close> on; \<open>iterations\<close> of the result is the number
  of passes through the body that were made, that is, of polls of the row count.
\<close>

function expand_loop ::
  "bool \<Rightarrow> (nat \<Rightarrow> nat) \<Rightarrow> nat \<Rightarrow> nat \<Rightarrow> nat \<Rightarrow> console_line list \<Rightarrow> expand_state" where
  "expand_loop debug counts iteration prev passes out =
     (if 240 < iteration then
        \<lparr>iterations = iteration - 1, previousCount = prev, stablePasses = passes, console = out\<rparr>
      else if prev < counts iteration then
        expand_loop debug counts (iteration + 1) (counts iteration) 0
          (out @ expand_line debug iteration prev (counts iteration))
      else if 3 \<le> passes + 1 then
        \<lparr>iterations = iteration, previousCount = prev, stablePasses = passes + 1,
         console = out @ expand_line debug iteration prev (counts iteration)\<rparr>
      else
        expand_loop debug counts (iteration + 1) prev (passes + 1)
          (out @ expand_line debug iteration prev (counts iteration)))"
  by pat_completeness auto
termination
  by (relation "measure (\<lambda>(debug, counts, iteration, prev, passes, out). 241 - iteration)") auto

declare expand_loop.simps [simp del]

definition expandOrdersTable :: "bool \<Rightarrow> (nat \<Rightarrow> nat) \<Rightarrow> expand_state" where
  "expandOrdersTable debug counts =
     (let s = expand_loop debug counts 1 (counts 0) 0 []
      in s\<lparr>console :=
             console s
               @ debugLog debug (utf16 ''expand: waiting 10s settle before extraction'') None\<rparr>)"

subsection \<open>\<^verbatim>\<open>extractOrdersFromTable\<close>\<close>

text \<open>
  A table row is the list of its \<^verbatim>\<open>td\<close> cells. Of a cell the scraper reads
  \<^verbatim>\<open>textContent()\<close>, a string or \<^verbatim>\<open>null\<close>, and, in column 1, the first element
  that \<^verbatim>\<open>locator('span > span')\<close> finds in the cell: \<open>NoSpan\<close> when the cell holds no
  such element, \<open>Span t\<close> when it does and \<open>t\<close> is the \<^verbatim>\<open>textContent()\<close> of the first.
\<close>

datatype nested = NoSpan | Span "jsstring option"

record cell =
  textContent :: "jsstring option"
  restaurantSpan :: nested

type_synonym table_row = "cell list"

text \<open>
  \<^verbatim>\<open>locator.textContent()\<close> waits for the element of the locator. The cells counted by
  \<^verbatim>\<open>cells.count()\<close> are there; a nested span that is not there does not come, and
  when the time allowed (30 seconds, no other being set) is over, the call throws a
  \<^verbatim>\<open>TimeoutError\<close>.
\<close>

datatype playwright_error = TimeoutError

definition span_textContent :: "nested \<Rightarrow> playwright_error + jsstring option" where
  "span_textContent n = (case n of NoSpan \<Rightarrow> Inl TimeoutError | Span t \<Rightarrow> Inr t)"

text \<open>\<^verbatim>\<open>value ?? ''\<close>.\<close>

definition or_empty :: "jsstring option \<Rightarrow> jsstring" where
  "or_empty v = (case v of None \<Rightarrow> [] | Some s \<Rightarrow> s)"

text \<open>
  \<^verbatim>\<open>
  for (let index = 0; index < rowCount; index += 1) {
    const row = rows.nth(index);
    const cells = row.locator('td');
    const cellCount = await cells.count();
    if (cellCount < 5) { continue; }
    const orderedAtText = normalizeText((await cells.nth(0).textContent()) ?? '');
    const restaurantSpan = cells.nth(1).locator('span > span').first();
    const restaurantName =
      normalizeText((await restaurantSpan.textContent()) ?? '')
        || normalizeText((await cells.nth(1).textContent()) ?? '');
    const rawPriceText = normalizeText((await cells.nth(4).textContent()) ?? '');
    const totalPrice = parsePriceFromText(rawPriceText);
    if (!orderedAtText || !restaurantName || totalPrice === null) {
      debugLog(`extract: skipped row ${index + 1}`, { orderedAtText, restaurantName, rawPriceText });
      continue;
    }
    orders.push(buildScrapedOrder({ restaurantName, totalPrice, orderedAtText }));
  }\<close>

  One pass through the body of the loop, for the cells of one row: the row is passed over
  without a word (too few cells), skipped with its three texts logged, or an order is
  pushed; or the read of the nested span throws, and nothing in the function catches it.
\<close>

datatype row_outcome =
  TooFewCells
| Skipped jsstring jsstring jsstring
| Pushed ScrapedOrder

definition extract_row :: "table_row \<Rightarrow> playwright_error + row_outcome" where
  "extract_row cells =
     (if length cells < 5 then Inr TooFewCells
      else
        let orderedAtText' = normalizeText (or_empty (textContent (cells ! 0)))
        in case span_textContent (restaurantSpan (cells ! 1)) of
          Inl error \<Rightarrow> Inl error
        | Inr spanTextContent \<Rightarrow>
            let spanText = normalizeText (or_empty spanTextContent);
                restaurantName' =
                  (if spanText \<noteq> [] then spanText
                   else normalizeText (or_empty (textContent (cells ! 1))));
                rawPriceText = normalizeText (or_empty (textContent (cells ! 4)));
                totalPrice' = parsePriceFromText rawPriceText
            in if orderedAtText' = [] \<or> restaurantName' = [] \<or> totalPrice' = None then
                 Inr (Skipped orderedAtText' restaurantName' rawPriceText)
               else
                 Inr (Pushed
                   (buildScrapedOrder
                      \<lparr>restaurantName = restaurantName', totalPrice = the totalPrice',
                       orderedAtText = orderedAtText'\<rparr>)))"

text \<open>
  The loop over the rows from \<open>index\<close> on, with the orders pushed and the lines printed
  so far: it ends with the orders, or with the error thrown on the way.
\<close>

fun extract_loop ::
  "bool \<Rightarrow> table_row list \<Rightarrow> nat \<Rightarrow> ScrapedOrder list \<Rightarrow> console_line list
     \<Rightarrow> (playwright_error + ScrapedOrder list) \<times> console_line list" where
  "extract_loop debug [] index orders out = (Inr orders, out)"
| "extract_loop debug (cells # rest) index orders out =
     (case extract_row cells of
        Inl error \<Rightarrow> (Inl error, out)
      | Inr TooFewCells \<Rightarrow> extract_loop debug rest (index + 1) orders out
      | Inr (Skipped orderedAtText' restaurantName' rawPriceText) \<Rightarrow>
          extract_loop debug rest (index + 1) orders
            (out @ debugLog debug
               (utf16 ''extract: skipped row '' @ decimal_digits (int (index + 1)))
               (Some (SkippedRow orderedAtText' restaurantName' rawPriceText)))
      | Inr (Pushed order) \<Rightarrow> extract_loop debug rest (index + 1) (orders @ [order]) out)"

text \<open>
  \<^verbatim>\<open>
  const rowCount = await rows.count();
  const orders: ScrapedOrder[] = [];
  ...
  debugLog('extract: summary', { rowCount, parsedOrders: orders.length });
  return orders;\<close>

  The result is what the function returns or throws, and what it has printed.
\<close>

definition extractOrdersFromTable ::
  "bool \<Rightarrow> table_row list \<Rightarrow> (playwright_error + ScrapedOrder list) \<times> console_line list" where
  "extractOrdersFromTable debug rows =
     (case extract_loop debug rows 0 [] [] of
        (Inl error, out) \<Rightarrow> (Inl error, out)
      | (Inr orders, out) \<Rightarrow>
          (Inr orders,
           out @ debugLog debug (utf16 ''extract: summary'')
                   (Some (Summary (length rows) (length orders)))))"

subsection \<open>\<^verbatim>\<open>run\<close>\<close>

text \<open>
  Of \<^verbatim>\<open>run\<close>, the part between the table being ready and the request: the table is
  expanded, the orders are extracted, and they are posted to \<^verbatim>\<open>/orders/bulk\<close> unless
  there is none. \<open>Inr None\<close> is no request, \<open>Inr (Some orders)\<close> a request with the body
  \<^verbatim>\<open>{ orders }\<close>, and \<open>Inl error\<close> the error of the extraction, which \<^verbatim>\<open>run\<close> lets
  through.

  \<^verbatim>\<open>
  await expandOrdersTable(page);
  const orders = await extractOrdersFromTable(page);
  if (orders.length === 0) {
    console.log('No orders detected in privacy table; nothing to scrape.');
    return;
  }
  ...
  const response = await fetch(`${apiBaseUrl}/orders/bulk`, {
    method: 'POST', ..., body: JSON.stringify({ orders }) });\<close>
\<close>

definition run_request ::
  "env \<Rightarrow> (nat \<Rightarrow> nat) \<Rightarrow> table_row list \<Rightarrow> playwright_error + ScrapedOrder list option" where
  "run_request process_env counts rows =
     (let expanded = expandOrdersTable (debugScraper process_env) counts
      in case fst (extractOrdersFromTable (debugScraper process_env) rows) of
           Inl error \<Rightarrow> Inl error
         | Inr orders \<Rightarrow> Inr (if length orders = 0 then None else Some orders))"


section \<open>The API's database module (\<^verbatim>\<open>apps/api/src/db.ts\<close>)\<close>

text \<open>
  The payload of the API has the fields of a scraped order
  (\<^verbatim>\<open>CreateOrderPayload\<close> in \<^verbatim>\<open>apps/api/src/types.ts\<close>).
\<close>

type_synonym CreateOrderPayload = ScrapedOrder

subsection \<open>The table\<close>

text \<open>
  \<^verbatim>\<open>
  CREATE TABLE IF NOT EXISTS orders (
    id INTEGER PRIMARY KEY AUTOINCREMENT,
    restaurant_name TEXT NOT NULL,
    item_count INTEGER NOT NULL,
    total_price REAL NOT NULL,
    ordered_date TEXT NOT NULL DEFAULT '',
    ordered_time TEXT NOT NULL DEFAULT '',
    ordered_at_text TEXT NOT NULL,
    source_signature TEXT NOT NULL UNIQUE,
    created_at TEXT NOT NULL DEFAULT CURRENT_TIMESTAMP
  );\<close>

  The database is the list of the rows of \<^verbatim>\<open>orders\<close>, in the order of insertion, and
  the last identity given out. The engine and its binding (\<^verbatim>\<open>sqlite3\<close>, \<^verbatim>\<open>sqlite\<close>)
  are outside the repository: they are modelled by what this schema declares and by what
  the binding does to the values of a statement's parameters. The column
  \<^verbatim>\<open>created_at\<close>, the time of the insertion, is left out, and so are the limits of
  the machine (memory, the disk, the greatest size of a row).
\<close>

record order_row =
  row_id :: nat
  restaurant_name :: jsstring
  item_count :: nat
  total_price :: jsnum
  ordered_date :: jsstring
  ordered_time :: jsstring
  ordered_at_text :: jsstring
  source_signature :: jsstring

record database =
  orders_table :: "order_row list"
  last_id :: nat

datatype js_error = Error jsstring

text \<open>
  A string parameter is bound as UTF-8 text. UTF-8 has no encoding for a surrogate that
  is not half of a pair, and the conversion puts U+FFFD in the place of each; everything
  else is kept. \<open>bind_text s\<close> is the text that is stored, written as the string it is
  read back as.
\<close>

definition is_high_surrogate :: "unit16 \<Rightarrow> bool" where
  "is_high_surrogate c \<longleftrightarrow> 0xD800 \<le> c \<and> c \<le> 0xDBFF"

definition is_low_surrogate :: "unit16 \<Rightarrow> bool" where
  "is_low_surrogate c \<longleftrightarrow> 0xDC00 \<le> c \<and> c \<le> 0xDFFF"

fun bind_text :: "jsstring \<Rightarrow> jsstring" where
  "bind_text [] = []"
| "bind_text [c] = (if is_high_surrogate c \<or> is_low_surrogate c then [0xFFFD] else [c])"
| "bind_text (c # d # cs) =
     (if is_high_surrogate c \<and> is_low_surrogate d then c # d # bind_text cs
      else if is_high_surrogate c \<or> is_low_surrogate c then 0xFFFD # bind_text (d # cs)
      else c # bind_text (d # cs))"

text \<open>
  A number parameter is bound as a double, and the engine takes the double NaN for
  \<^verbatim>\<open>NULL\<close> (\<open>None\<close>); every other number is stored as it is.
\<close>

definition bind_number :: "jsnum \<Rightarrow> jsnum option" where
  "bind_number x = (if x = NaN then None else Some x)"

text \<open>
  One run of the prepared \<^verbatim>\<open>INSERT\<close> with its seven parameters. The texts and
  \<^verbatim>\<open>item_count\<close> are bound to values, so the constraints a run can violate are
  \<^verbatim>\<open>NOT NULL\<close> of \<^verbatim>\<open>total_price\<close>, which the engine checks first, and the
  uniqueness of \<^verbatim>\<open>source_signature\<close>; the run then changes nothing and throws the
  engine's error.
\<close>

definition stmt_run ::
  "database \<Rightarrow> jsstring \<Rightarrow> nat \<Rightarrow> jsnum \<Rightarrow> jsstring \<Rightarrow> jsstring \<Rightarrow> jsstring \<Rightarrow> jsstring
     \<Rightarrow> js_error + database" where
  "stmt_run db name items price date time text signature =
     (case bind_number price of
        None \<Rightarrow>
          Inl (Error (utf16 ''SQLITE_CONSTRAINT: NOT NULL constraint failed: orders.total_price''))
      | Some stored_price \<Rightarrow>
          if bind_text signature \<in> set (map source_signature (orders_table db)) then
            Inl (Error
              (utf16 ''SQLITE_CONSTRAINT: UNIQUE constraint failed: orders.source_signature''))
          else
            Inr \<lparr>orders_table =
                   orders_table db @
                     [\<lparr>row_id = last_id db + 1, restaurant_name = bind_text name,
                       item_count = items, total_price = stored_price,
                       ordered_date = bind_text date, ordered_time = bind_text time,
                       ordered_at_text = bind_text text,
                       source_signature = bind_text signature\<rparr>],
                 last_id = last_id db + 1\<rparr>)"

text \<open>
  \<^verbatim>\<open>
  function isUniqueConstraintError(error: unknown): boolean {
    return error instanceof Error && /UNIQUE constraint failed/.test(error.message);
  }\<close>
\<close>

definition isUniqueConstraintError :: "js_error \<Rightarrow> bool" where
  "isUniqueConstraintError error =
     (case error of Error message \<Rightarrow> contains_text (utf16 ''UNIQUE constraint failed'') message)"

subsection \<open>The module's own \<^verbatim>\<open>splitOrderedAtText\<close>\<close>

text \<open>
  \<^verbatim>\<open>
  function splitOrderedAtText(orderedAtText: string) {
    const segments = orderedAtText
      .split(',')
      .map((segment) => segment.trim())
      .filter((segment) => segment.length > 0);
    if (segments.length >= 3) {
      return {
        orderedDate: `${segments[0]}, ${segments[1]}`,
        orderedTime: segments.slice(2).join(', ')
      };
    }
    return { orderedDate: orderedAtText, orderedTime: '' };
  }\<close>
\<close>

definition db_splitOrderedAtText :: "jsstring \<Rightarrow> OrderedDateTime" where
  "db_splitOrderedAtText orderedAtText' =
     (let segments =
            filter (\<lambda>segment. length segment > 0) (map trim (split_on 0x2C orderedAtText'))
      in if length segments \<ge> 3 then
           \<lparr>orderedDate = segments ! 0 @ utf16 '', '' @ segments ! 1,
            orderedTime = join (utf16 '', '') (drop 2 segments)\<rparr>
         else \<lparr>orderedDate = orderedAtText', orderedTime = []\<rparr>)"

subsection \<open>\<^verbatim>\<open>insertOrders\<close>\<close>

record InsertResult =
  inserted :: nat
  skipped :: nat

text \<open>
  \<^verbatim>\<open>
  for (const order of orders) {
    try {
      const orderedDateTime = splitOrderedAtText(order.orderedAtText);
      await stmt.run(order.restaurantName, 1, order.totalPrice, orderedDateTime.orderedDate,
        orderedDateTime.orderedTime, order.orderedAtText, order.sourceSignature);
      inserted += 1;
    } catch (error) {
      if (isUniqueConstraintError(error)) { skipped += 1; } else { throw error; }
    }
  }\<close>
\<close>

fun insert_loop ::
  "database \<Rightarrow> CreateOrderPayload list \<Rightarrow> nat \<Rightarrow> nat \<Rightarrow> js_error + (database \<times> nat \<times> nat)" where
  "insert_loop db [] ins skp = Inr (db, ins, skp)"
| "insert_loop db (order # rest) ins skp =
     (case stmt_run db (restaurantName order) 1 (totalPrice order)
             (orderedDate (db_splitOrderedAtText (orderedAtText order)))
             (orderedTime (db_splitOrderedAtText (orderedAtText order)))
             (orderedAtText order) (sourceSignature order) of
        Inr db' \<Rightarrow> insert_loop db' rest (ins + 1) skp
      | Inl error \<Rightarrow>
          if isUniqueConstraintError error then insert_loop db rest ins (skp + 1)
          else Inl error)"

text \<open>
  \<^verbatim>\<open>
  export async function insertOrders(orders: CreateOrderPayload[]) {
    if (orders.length === 0) { return { inserted: 0, skipped: 0 }; }
    const db = await getDb();
    await db.exec('BEGIN TRANSACTION');
    let inserted = 0;
    let skipped = 0;
    try {
      const stmt = await db.prepare(...);
      for (const order of orders) { ... }
      await stmt.finalize();
      await db.exec('COMMIT');
      return { inserted, skipped };
    } catch (error) {
      await db.exec('ROLLBACK');
      throw error;
    }
  }\<close>

  The result is the database after the call and what the call returns or throws; a
  rollback leaves the database as it was before the transaction.
\<close>

definition insertOrders ::
  "database \<Rightarrow> CreateOrderPayload list \<Rightarrow> database \<times> (js_error + InsertResult)" where
  "insertOrders db orders =
     (if length orders = 0 then (db, Inr \<lparr>inserted = 0, skipped = 0\<rparr>)
      else (case insert_loop db orders 0 0 of
              Inr (db', ins, skp) \<Rightarrow> (db', Inr \<lparr>inserted = ins, skipped = skp\<rparr>)
            | Inl error \<Rightarrow> (db, Inl error)))"


section \<open>Notions of the specification\<close>

text \<open>
  A text in which \<^verbatim>\<open>/\s+/g\<close> has nothing left to change: every white-space unit is
  a space and is followed by a unit that is no white space, or by nothing.
\<close>

fun collapsed :: "jsstring \<Rightarrow> bool" where
  "collapsed [] = True"
| "collapsed [c] = (is_space c \<longrightarrow> c = 0x20)"
| "collapsed (c # d # cs) = ((is_space c \<longrightarrow> c = 0x20 \<and> \<not> is_space d) \<and> collapsed (d # cs))"



text \<open>
  The non-empty trimmed comma-segments of a timestamp text.
\<close>

definition comma_segments :: "jsstring \<Rightarrow> jsstring list" where
  "comma_segments s = filter (\<lambda>segment. segment \<noteq> []) (map trim (split_on 0x2C s))"

text \<open>
  A simulated row source whose row count stops growing after iteration \<open>K\<close>: every read
  up to the one of iteration \<open>K\<close> returns more than the read before it, and no later
  read returns more than the read of iteration \<open>K\<close>.
\<close>

definition stops_growing_after :: "(nat \<Rightarrow> nat) \<Rightarrow> nat \<Rightarrow> bool" where
  "stops_growing_after counts K \<longleftrightarrow>
     (\<forall>i. 1 \<le> i \<and> i \<le> K \<longrightarrow> counts (i - 1) < counts i) \<and>
     (\<forall>i. K < i \<longrightarrow> counts i \<le> counts K)"

text \<open>
  The signatures stored in the database, and the signature of an order as the database
  stores it.
\<close>

definition signatures :: "database \<Rightarrow> jsstring list" where
  "signatures db = map source_signature (orders_table db)"

definition stored_signature :: "CreateOrderPayload \<Rightarrow> jsstring" where
  "stored_signature order = bind_text (sourceSignature order)"

text \<open>A string that holds no surrogate outside a pair.\<close>

fun well_formed :: "jsstring \<Rightarrow> bool" where
  "well_formed [] = True"
| "well_formed [c] = (\<not> is_high_surrogate c \<and> \<not> is_low_surrogate c)"
| "well_formed (c # d # cs) =
     (if is_high_surrogate c \<and> is_low_surrogate d then well_formed cs
      else \<not> is_high_surrogate c \<and> \<not> is_low_surrogate c \<and> well_formed (d # cs))"







text \<open>
  The currency-symbol-prefixed numeric pattern of the specification: after the dollar
  sign (and white space, if any) come digits with optional thousands-separator commas,
  then optionally a point and one or two decimal digits. The commas are optional and the
  digits are not: the body holds at least one digit. Nothing is asked of where the
  commas stand, so that every reading of the words is covered.
\<close>

definition numeric_pattern_occurs :: "jsstring \<Rightarrow> bool" where
  "numeric_pattern_occurs s \<longleftrightarrow>
     (\<exists>pre ws body fr post.
        s = pre @ [0x24] @ ws @ body @ fr @ post \<and>
        list_all is_space ws \<and> list_all is_digit_or_comma body \<and>
        (\<exists>c \<in> set body. is_digit c) \<and> fraction_shape fr)"

text \<open>
  The code units of the decimal rendering of a finite number: digits, the point, the
  \<^verbatim>\<open>e\<close> of an exponent and the two signs.
\<close>

definition numeric_char :: "unit16 \<Rightarrow> bool" where
  "numeric_char c \<longleftrightarrow> is_digit c \<or> c = 0x2E \<or> c = 0x65 \<or> c = 0x2B \<or> c = 0x2D"






text \<open>The empty database, and the payload of a name, a price and a signature.\<close>

definition empty_database :: database where
  "empty_database = \<lparr>orders_table = [], last_id = 0\<rparr>"

definition payload :: "jsstring \<Rightarrow> jsnum \<Rightarrow> jsstring \<Rightarrow> CreateOrderPayload" where
  "payload name price signature =
     \<lparr>restaurantName = name, totalPrice = price, orderedAtText = utf16 ''t'',
      sourceSignature = signature\<rparr>"


section \<open>Text normalization\<close>

lemma is_space_SP: "is_space 0x20"
  by (simp add: is_space_def)

lemma hd_collapse: "collapse s \<noteq> [] \<Longrightarrow> is_space (hd (collapse s)) \<longleftrightarrow> is_space (hd s)"
  by (cases s) (auto simp: is_space_SP)

lemma collapse_dropWhile_hd:
  assumes "collapse (dropWhile is_space cs) = d # ds"
  shows "\<not> is_space d"
proof -
  from assms have "dropWhile is_space cs \<noteq> []"
    by (metis collapse.simps(1) list.distinct(1))
  then have "\<not> is_space (hd (dropWhile is_space cs))"
    by (rule hd_dropWhile)
  with assms show ?thesis
    using hd_collapse [of "dropWhile is_space cs"] by simp
qed

lemma collapsed_collapse: "collapsed (collapse s)"
proof (induction s rule: collapse.induct)
  case 1
  show ?case by simp
next
  case (2 c cs)
  show ?case
  proof (cases "is_space c")
    case True
    with 2 have ih: "collapsed (collapse (dropWhile is_space cs))" by simp
    show ?thesis
    proof (cases "collapse (dropWhile is_space cs)")
      case Nil
      with True show ?thesis by (simp add: is_space_SP)
    next
      case (Cons d ds)
      with ih True collapse_dropWhile_hd [OF Cons] show ?thesis by simp
    qed
  next
    case False
    with 2 have "collapsed (collapse cs)" by simp
    with False show ?thesis by (cases "collapse cs") auto
  qed
qed

lemma collapse_id: "collapsed s \<Longrightarrow> collapse s = s"
  by (induction s rule: collapsed.induct) auto

lemma collapsed_append_left: "collapsed (xs @ ys) \<Longrightarrow> collapsed xs"
proof (induction xs rule: collapsed.induct)
  case 1
  show ?case by simp
next
  case (2 c)
  then show ?case by (cases ys) auto
next
  case (3 c d cs)
  then show ?case by auto
qed

lemma collapsed_tl: "collapsed (x # xs) \<Longrightarrow> collapsed xs"
  by (cases xs) auto

lemma collapsed_dropWhile: "collapsed xs \<Longrightarrow> collapsed (dropWhile P xs)"
  by (induction xs) (auto dest: collapsed_tl)

lemma trim_end_prefix: "\<exists>zs. s = rev (dropWhile P (rev s)) @ zs"
proof -
  have "rev s = takeWhile P (rev s) @ dropWhile P (rev s)" by simp
  then have "rev (rev s) = rev (takeWhile P (rev s) @ dropWhile P (rev s))"
    by (rule arg_cong)
  then show ?thesis by (metis rev_append rev_rev_ident)
qed

lemma collapsed_trim: "collapsed s \<Longrightarrow> collapsed (trim s)"
proof -
  assume "collapsed s"
  then have d: "collapsed (dropWhile is_space s)" by (rule collapsed_dropWhile)
  obtain zs where "dropWhile is_space s = trim s @ zs"
    using trim_end_prefix [of "dropWhile is_space s" is_space] by (auto simp: trim_def)
  with d show ?thesis using collapsed_append_left by metis
qed

lemma dropWhile_id: "xs = [] \<or> \<not> P (hd xs) \<Longrightarrow> dropWhile P xs = xs"
  by (cases xs) auto

lemma trim_trim: "trim (trim s) = trim s"
proof -
  let ?a = "dropWhile is_space s"
  let ?b = "dropWhile is_space (rev ?a)"
  have b: "?b = [] \<or> \<not> is_space (hd ?b)"
    using hd_dropWhile [of is_space "rev ?a"] by blast
  have "dropWhile is_space (rev ?b) = rev ?b"
  proof (cases "?b = []")
    case True
    then have "rev ?b = []" by (simp only: rev.simps)
    then show ?thesis by (simp only: dropWhile.simps)
  next
    case False
    have "?a \<noteq> []" using False by (metis dropWhile.simps(1) rev.simps(1))
    then have na: "\<not> is_space (hd ?a)" by (rule hd_dropWhile)
    obtain zs where z: "?a = rev ?b @ zs"
      using trim_end_prefix [of ?a is_space] by auto
    have "rev ?b \<noteq> []" using False by simp
    with z have "hd (rev ?b) = hd ?a" by (metis hd_append2)
    with na show ?thesis by (intro dropWhile_id) simp
  qed
  moreover have "dropWhile is_space ?b = ?b" using b by (rule dropWhile_id)
  ultimately show ?thesis by (simp only: trim_def rev_rev_ident)
qed

lemma collapsed_normalizeText: "collapsed (normalizeText x)"
  unfolding normalizeText_def by (rule collapsed_trim [OF collapsed_collapse])





text \<open>
  Claim C6. Text normalization is idempotent: \<open>normalizeText (normalizeText x)\<close> is
  \<open>normalizeText x\<close> for every string \<open>x\<close>.
\<close>

theorem normalizeText_idempotent: "normalizeText (normalizeText x) = normalizeText x"
proof -
  have "collapse (normalizeText x) = normalizeText x"
    by (rule collapse_id [OF collapsed_normalizeText])
  then show ?thesis by (simp add: normalizeText_def trim_trim)
qed


section \<open>The two copies of \<^verbatim>\<open>splitOrderedAtText\<close>\<close>

lemma join_two: "join sep [x, y] = x @ sep @ y"
  by simp

lemma take_two: "2 \<le> length xs \<Longrightarrow> take 2 xs = [xs ! 0, xs ! 1]"
  by (cases xs; cases "tl xs") auto

text \<open>
  Claim C10. The two copies of \<^verbatim>\<open>splitOrderedAtText\<close>, the parser module's and the
  database module's, compute the same function: for every text both return the first two
  non-empty trimmed comma-segments joined by \<^verbatim>\<open>", "\<close> as the date and the remaining
  ones joined by \<^verbatim>\<open>", "\<close> as the time when there are at least three such segments,
  and the text itself as the date with an empty time otherwise.
\<close>

theorem splitOrderedAtText_copies_agree:
  "splitOrderedAtText s = db_splitOrderedAtText s \<and>
   splitOrderedAtText s =
     (if 3 \<le> length (comma_segments s) then
        \<lparr>orderedDate = join (utf16 '', '') (take 2 (comma_segments s)),
         orderedTime = join (utf16 '', '') (drop 2 (comma_segments s))\<rparr>
      else \<lparr>orderedDate = s, orderedTime = []\<rparr>)"
proof -
  have "splitOrderedAtText s = db_splitOrderedAtText s"
    by (simp add: splitOrderedAtText_def db_splitOrderedAtText_def)
  moreover have "splitOrderedAtText s =
     (if 3 \<le> length (comma_segments s) then
        \<lparr>orderedDate = join (utf16 '', '') (take 2 (comma_segments s)),
         orderedTime = join (utf16 '', '') (drop 2 (comma_segments s))\<rparr>
      else \<lparr>orderedDate = s, orderedTime = []\<rparr>)"
    by (simp add: splitOrderedAtText_def comma_segments_def Let_def take_two join_two)
  ultimately show ?thesis by simp
qed

theorem splitOrderedAtText_copies_agree_witness:
  "db_splitOrderedAtText (utf16 ''Feb 22, 2026, 10:09:13 AM'') =
     \<lparr>orderedDate = utf16 ''Feb 22, 2026'', orderedTime = utf16 ''10:09:13 AM''\<rparr>"
proof -
  let ?s = "utf16 ''Feb 22, 2026, 10:09:13 AM''"
  have segs: "comma_segments ?s = [utf16 ''Feb 22'', utf16 ''2026'', utf16 ''10:09:13 AM'']"
    by code_simp
  have "db_splitOrderedAtText ?s = splitOrderedAtText ?s"
    by (rule sym) (rule conjunct1 [OF splitOrderedAtText_copies_agree])
  also have "\<dots> =
     (if 3 \<le> length (comma_segments ?s) then
        \<lparr>orderedDate = join (utf16 '', '') (take 2 (comma_segments ?s)),
         orderedTime = join (utf16 '', '') (drop 2 (comma_segments ?s))\<rparr>
      else \<lparr>orderedDate = ?s, orderedTime = []\<rparr>)"
    by (rule conjunct2 [OF splitOrderedAtText_copies_agree])
  also have "\<dots> = \<lparr>orderedDate = utf16 ''Feb 22, 2026'', orderedTime = utf16 ''10:09:13 AM''\<rparr>"
    by (simp add: segs) (simp add: utf16_def)
  finally show ?thesis .
qed


section \<open>Price parsing\<close>

lemma digit_not_space: "is_digit c \<Longrightarrow> \<not> is_space c"
  by (auto simp: is_digit_def is_space_def word_le_nat_alt)

lemma digit_or_comma_not_space: "is_digit_or_comma c \<Longrightarrow> \<not> is_space c"
  by (auto simp: is_digit_or_comma_def is_digit_def is_space_def word_le_nat_alt)

lemma point_not_digit: "\<not> is_digit 0x2E"
  by (simp add: is_digit_def)

lemma fraction_group_shape: "fraction_shape (fraction_group r)"
  by (auto simp: fraction_group_def fraction_shape_def split: list.splits)

lemma pricePattern_at_Some_iff:
  "pricePattern_at t \<noteq> None \<longleftrightarrow>
     (\<exists>r. t = 0x24 # r \<and> dropWhile is_space r \<noteq> [] \<and>
          is_digit_or_comma (hd (dropWhile is_space r)))"
proof (cases t)
  case Nil
  then show ?thesis by (simp add: pricePattern_at_def)
next
  case (Cons c r)
  have "takeWhile is_digit_or_comma xs = [] \<longleftrightarrow> xs = [] \<or> \<not> is_digit_or_comma (hd xs)" for xs
    by (cases xs) auto
  with Cons show ?thesis
    by (auto simp: pricePattern_at_def Let_def)
qed

lemma pricePattern_at_capture:
  assumes "pricePattern_at t = Some g"
  shows "\<exists>ws body fr post.
           t = [0x24] @ ws @ body @ fr @ post \<and> g = body @ fr \<and>
           list_all is_space ws \<and> body \<noteq> [] \<and> list_all is_digit_or_comma body \<and>
           fraction_shape fr"
proof -
  from assms obtain r where t: "t = 0x24 # r"
    by (cases t) (auto simp: pricePattern_at_def split: if_splits)
  let ?r1 = "dropWhile is_space r"
  let ?body = "takeWhile is_digit_or_comma ?r1"
  let ?r2 = "dropWhile is_digit_or_comma ?r1"
  from assms t have body: "?body \<noteq> []" and g: "g = ?body @ fraction_group ?r2"
    by (auto simp: pricePattern_at_def Let_def split: if_splits)
  have "\<exists>post. ?r2 = fraction_group ?r2 @ post"
    by (auto simp: fraction_group_def split: list.splits)
  then obtain post where post: "?r2 = fraction_group ?r2 @ post" ..
  have "r = takeWhile is_space r @ ?r1" by simp
  also have "?r1 = ?body @ ?r2" by simp
  finally have "t = [0x24] @ takeWhile is_space r @ ?body @ fraction_group ?r2 @ post"
    using t post by simp
  moreover have "list_all is_space (takeWhile is_space r)"
    by (simp add: list_all_iff) (meson set_takeWhileD)
  moreover have "list_all is_digit_or_comma ?body"
    by (simp add: list_all_iff) (meson set_takeWhileD)
  ultimately show ?thesis
    using body g fraction_group_shape by blast
qed

lemma pricePattern_match_Some:
  "pricePattern_match s = Some g \<Longrightarrow> \<exists>pre t. s = pre @ t \<and> pricePattern_at t = Some g"
proof (induction s)
  case Nil
  then show ?case by simp
next
  case (Cons c cs)
  show ?case
  proof (cases "pricePattern_at (c # cs)")
    case None
    with Cons obtain pre t where "cs = pre @ t" "pricePattern_at t = Some g" by auto
    then have "c # cs = (c # pre) @ t \<and> pricePattern_at t = Some g" by simp
    then show ?thesis by blast
  next
    case (Some g')
    with Cons.prems have "c # cs = [] @ (c # cs) \<and> pricePattern_at (c # cs) = Some g" by simp
    then show ?thesis by blast
  qed
qed

lemma pricePattern_match_append:
  "pricePattern_at t \<noteq> None \<Longrightarrow> pricePattern_match (pre @ t) \<noteq> None"
proof (induction pre)
  case Nil
  then show ?case by (cases t) (auto simp: pricePattern_at_def)
next
  case (Cons c pre)
  then show ?case by (auto split: option.splits)
qed

lemma pricePattern_match_None_iff:
  "pricePattern_match s = None \<longleftrightarrow> \<not> pricePattern_occurs s"
proof
  assume none: "pricePattern_match s = None"
  show "\<not> pricePattern_occurs s"
  proof
    assume "pricePattern_occurs s"
    then obtain pre ws body fr post where
      s: "s = pre @ [0x24] @ ws @ body @ fr @ post" and ws: "list_all is_space ws"
      and body: "body \<noteq> []" "list_all is_digit_or_comma body"
      unfolding pricePattern_occurs_def by blast
    from body have hd: "is_digit_or_comma (hd body)"
      by (cases body) auto
    then have "\<not> is_space (hd body)" by (rule digit_or_comma_not_space)
    with body ws have dw: "dropWhile is_space (ws @ body @ fr @ post) = body @ fr @ post"
      by (cases body) (auto simp: dropWhile_append list_all_iff)
    have "pricePattern_at (0x24 # ws @ body @ fr @ post) \<noteq> None"
      unfolding pricePattern_at_Some_iff
    proof (intro exI conjI)
      show "0x24 # ws @ body @ fr @ post = 0x24 # ws @ body @ fr @ post" ..
      show "dropWhile is_space (ws @ body @ fr @ post) \<noteq> []"
        unfolding dw using body by simp
      show "is_digit_or_comma (hd (dropWhile is_space (ws @ body @ fr @ post)))"
        unfolding dw using body hd by simp
    qed
    then have "pricePattern_match (pre @ 0x24 # ws @ body @ fr @ post) \<noteq> None"
      by (rule pricePattern_match_append)
    with none s show False by simp
  qed
next
  assume no: "\<not> pricePattern_occurs s"
  show "pricePattern_match s = None"
  proof (rule ccontr)
    assume "pricePattern_match s \<noteq> None"
    then obtain g where "pricePattern_match s = Some g" by auto
    from pricePattern_match_Some [OF this] obtain pre t where
      "s = pre @ t" "pricePattern_at t = Some g" by blast
    with pricePattern_at_capture [of t g] have "pricePattern_occurs s"
      unfolding pricePattern_occurs_def by blast
    with no show False ..
  qed
qed

lemma number_value_not_NaN: "number_value q \<noteq> NaN"
  by (simp add: number_value_def number_value_pos_def negate_def Let_def)

lemma trim_no_space:
  assumes "\<forall>c\<in>set s. \<not> is_space c"
  shows "trim s = s"
proof -
  have "dropWhile is_space s = s"
    using assms by (cases s) auto
  moreover have "dropWhile is_space (rev s) = rev s"
    unfolding dropWhile_eq_self_iff using assms by (cases "s = []") (auto simp: hd_rev)
  ultimately show ?thesis by (simp add: trim_def)
qed

lemma StrUnsignedDecimalLiteral_digits:
  assumes "list_all is_digit ds" and "fraction_shape fr" and "ds @ fr \<noteq> []"
  shows "StrUnsignedDecimalLiteral (ds @ fr) \<noteq> NaN"
proof -
  have ds: "\<forall>c\<in>set ds. is_digit c" using assms(1) by (simp add: list_all_iff)
  consider "fr = []" | d1 where "fr = [0x2E, d1]" "is_digit d1"
    | d1 d2 where "fr = [0x2E, d1, d2]" "is_digit d1" "is_digit d2"
    using assms(2) unfolding fraction_shape_def by blast
  then show ?thesis
  proof cases
    case 1
    have tw: "takeWhile is_digit ds = ds" "dropWhile is_digit ds = []"
      using ds by simp_all
    from 1 assms(3) show ?thesis
      by (simp add: StrUnsignedDecimalLiteral_def Let_def ExponentPart_def number_value_not_NaN tw)
  next
    case 2
    with ds show ?thesis
      by (simp add: StrUnsignedDecimalLiteral_def Let_def ExponentPart_def number_value_not_NaN
          takeWhile_append2 dropWhile_append2 point_not_digit)
  next
    case 3
    with ds show ?thesis
      by (simp add: StrUnsignedDecimalLiteral_def Let_def ExponentPart_def number_value_not_NaN
          takeWhile_append2 dropWhile_append2 point_not_digit)
  qed
qed

lemma NonDecimalIntegerLiteral_digits:
  "\<forall>c\<in>set s. is_digit c \<or> c = 0x2E \<Longrightarrow> NonDecimalIntegerLiteral s = None"
  by (auto simp: NonDecimalIntegerLiteral_def is_digit_def split: list.splits)

lemma Number_digits:
  assumes "list_all is_digit ds" and "fraction_shape fr"
  shows "Number (ds @ fr) \<noteq> NaN"
proof (cases "ds @ fr = []")
  case True
  then show ?thesis by (simp add: Number_def trim_def)
next
  case False
  have chars: "\<forall>c\<in>set (ds @ fr). is_digit c \<or> c = 0x2E"
    using assms by (auto simp: list_all_iff fraction_shape_def)
  have "\<not> is_space 0x2E" by (simp add: is_space_def)
  with chars have "\<forall>c\<in>set (ds @ fr). \<not> is_space c"
    using digit_not_space by blast
  then have t: "trim (ds @ fr) = ds @ fr" by (rule trim_no_space)
  have "is_digit (hd (ds @ fr)) \<or> hd (ds @ fr) = 0x2E"
    using chars False by (metis hd_in_set)
  then have hd: "hd (ds @ fr) \<noteq> 0x2B" "hd (ds @ fr) \<noteq> 0x2D"
    by (auto simp: is_digit_def)
  show ?thesis
    unfolding Number_def Let_def t
    using False hd NonDecimalIntegerLiteral_digits [OF chars]
      StrUnsignedDecimalLiteral_digits [OF assms False]
    by simp
qed

lemma capture_converts:
  assumes "pricePattern_match s = Some g"
  shows "Number (filter (\<lambda>c. c \<noteq> 0x2C) g) \<noteq> NaN"
proof -
  from pricePattern_match_Some [OF assms] obtain pre t where "pricePattern_at t = Some g"
    by blast
  from pricePattern_at_capture [OF this] obtain body fr where
    g: "g = body @ fr" and body: "list_all is_digit_or_comma body" and fr: "fraction_shape fr"
    by blast
  have "filter (\<lambda>c. c \<noteq> 0x2C) fr = fr"
    using fr by (auto simp: fraction_shape_def is_digit_def)
  moreover have "list_all is_digit (filter (\<lambda>c. c \<noteq> 0x2C) body)"
    using body by (auto simp: list_all_iff is_digit_or_comma_def)
  ultimately show ?thesis
    using Number_digits [OF _ fr, of "filter (\<lambda>c. c \<noteq> 0x2C) body"] g by simp
qed

lemma parsePriceFromText_None_iff:
  "parsePriceFromText s = None \<longleftrightarrow> pricePattern_match s = None"
  using capture_converts [of s]
  by (auto simp: parsePriceFromText_def Let_def split: option.splits)

lemma parse_examples:
  "parsePriceFromText (utf16 ''$24.99'') = Some (number_value (2499 / 100))"
  "parsePriceFromText (utf16 ''$1,234.5'') = Some (number_value (12345 / 10))"
  "parsePriceFromText (utf16 ''no price here'') = None"
  "parsePriceFromText (utf16 ''$0'') = Some (Finite 0)"
  by code_simp+

lemma no_price_here: "pricePattern_match (utf16 ''no price here'') = None"
  by code_simp

lemma dollar_comma:
  "pricePattern_match (utf16 ''$,'') = Some (utf16 '','')"
  "filter (\<lambda>c. c \<noteq> 0x2C) (utf16 '','') = []"
  "Number [] = Finite 0"
  "parsePriceFromText (utf16 ''$,'') = Some (Finite 0)"
  by code_simp+

lemma thousands_example:
  "pricePattern_match (utf16 ''Total: $ 1,234.567'') = Some (utf16 ''1,234.56'')"
  by code_simp

lemma numeric_pattern_is_pricePattern: "numeric_pattern_occurs s \<Longrightarrow> pricePattern_occurs s"
  unfolding numeric_pattern_occurs_def pricePattern_occurs_def by fastforce

lemma numeric_pattern_digit: "numeric_pattern_occurs s \<Longrightarrow> \<exists>c \<in> set s. is_digit c"
  unfolding numeric_pattern_occurs_def by auto

lemma numeric_pattern_example: "numeric_pattern_occurs (utf16 ''$24.99'')"
proof -
  have "utf16 ''$24.99'' = [] @ [0x24] @ [] @ utf16 ''24'' @ utf16 ''.99'' @ []"
    by (simp add: utf16_def)
  moreover have "list_all is_digit_or_comma (utf16 ''24'')"
    by (simp add: utf16_def is_digit_or_comma_def is_digit_def)
  moreover have "\<exists>c \<in> set (utf16 ''24''). is_digit c"
    by (simp add: utf16_def is_digit_def)
  moreover have "fraction_shape (utf16 ''.99'')"
    by (simp add: utf16_def fraction_shape_def is_digit_def)
  moreover have "list_all is_space []"
    by simp
  ultimately show ?thesis
    unfolding numeric_pattern_occurs_def by blast
qed

text \<open>
  Claim C5, as amended. Price parsing satisfies the reference cases of the
  specification: \<^verbatim>\<open>"$24.99"\<close> gives 24.99, \<^verbatim>\<open>"$1,234.5"\<close> gives 1234.5,
  \<^verbatim>\<open>"no price here"\<close> gives \<^verbatim>\<open>null\<close> and \<^verbatim>\<open>"$0"\<close> gives 0 (a decimal standing
  for its Number value). For every text the result is \<^verbatim>\<open>null\<close> exactly when the
  pattern of the code does not occur in it (a dollar sign, white space if any, and at
  least one digit or comma) or the match, stripped of its commas, converts to NaN. So
  wherever the numeric pattern of the specification occurs, which asks for a digit, the
  result is a number.
\<close>

theorem parsePriceFromText_cases:
  "parsePriceFromText (utf16 ''$24.99'') = Some (number_value (2499 / 100)) \<and>
   parsePriceFromText (utf16 ''$1,234.5'') = Some (number_value (12345 / 10)) \<and>
   parsePriceFromText (utf16 ''no price here'') = None \<and>
   parsePriceFromText (utf16 ''$0'') = Some (Finite 0) \<and>
   (parsePriceFromText s = None \<longleftrightarrow>
      \<not> pricePattern_occurs s \<or>
      (\<exists>g. pricePattern_match s = Some g \<and> Number (filter (\<lambda>c. c \<noteq> 0x2C) g) = NaN)) \<and>
   (numeric_pattern_occurs s \<longrightarrow> parsePriceFromText s \<noteq> None)"
proof -
  have iff: "parsePriceFromText s = None \<longleftrightarrow>
      \<not> pricePattern_occurs s \<or>
      (\<exists>g. pricePattern_match s = Some g \<and> Number (filter (\<lambda>c. c \<noteq> 0x2C) g) = NaN)"
    using capture_converts [of s]
    by (auto simp: parsePriceFromText_None_iff pricePattern_match_None_iff)
  have "numeric_pattern_occurs s \<longrightarrow> parsePriceFromText s \<noteq> None"
    using numeric_pattern_is_pricePattern [of s]
    by (auto simp: parsePriceFromText_None_iff pricePattern_match_None_iff)
  with iff show ?thesis by (simp add: parse_examples)
qed

theorem parsePriceFromText_cases_witness:
  "numeric_pattern_occurs (utf16 ''$24.99'') \<and>
   pricePattern_occurs (utf16 ''$24.99'') \<and>
   parsePriceFromText (utf16 ''$24.99'') \<noteq> None"
  using parsePriceFromText_cases [of "utf16 ''$24.99''"] numeric_pattern_example
  by auto

text \<open>
  The claim as it was stated fails at \<^verbatim>\<open>"$,"\<close>: the text holds no digit, so the
  numeric pattern of the specification is absent, and the result is 0, not
  \<^verbatim>\<open>null\<close>.
\<close>

theorem parsePriceFromText_counterexample:
  "\<not> numeric_pattern_occurs (utf16 ''$,'') \<and>
   parsePriceFromText (utf16 ''$,'') = Some (Finite 0)"
proof -
  have "\<not> (\<exists>c \<in> set (utf16 ''$,''). is_digit c)"
    by (simp add: utf16_def is_digit_def)
  then have "\<not> numeric_pattern_occurs (utf16 ''$,'')"
    using numeric_pattern_digit by blast
  moreover have "parsePriceFromText (utf16 ''$,'') = Some (Finite 0)"
    by (rule dollar_comma(4))
  ultimately show ?thesis by simp
qed

text \<open>
  Claim C9. The NaN branch of \<^verbatim>\<open>parsePriceFromText\<close> is unreachable: whenever the
  pattern matches, the captured group stripped of its commas converts to a number that is
  not NaN, so the function returns \<^verbatim>\<open>null\<close> only when the pattern is absent. For
  \<^verbatim>\<open>"$,"\<close> the group is a comma, which strips to the empty text, which converts to
  0: the function returns 0 although the text holds no digit.
\<close>

theorem NaN_branch_unreachable:
  "(pricePattern_match s = Some g \<longrightarrow> Number (filter (\<lambda>c. c \<noteq> 0x2C) g) \<noteq> NaN) \<and>
   (parsePriceFromText s = None \<longleftrightarrow> pricePattern_match s = None) \<and>
   pricePattern_match (utf16 ''$,'') = Some (utf16 '','') \<and>
   filter (\<lambda>c. c \<noteq> 0x2C) (utf16 '','') = [] \<and>
   Number [] = Finite 0 \<and>
   parsePriceFromText (utf16 ''$,'') = Some (Finite 0)"
  using capture_converts [of s g]
  by (simp add: parsePriceFromText_None_iff dollar_comma)

theorem NaN_branch_unreachable_witness:
  "pricePattern_match (utf16 ''Total: $ 1,234.567'') = Some (utf16 ''1,234.56'') \<and>
   Number (filter (\<lambda>c. c \<noteq> 0x2C) (utf16 ''1,234.56'')) \<noteq> NaN"
  using NaN_branch_unreachable [of "utf16 ''Total: $ 1,234.567''" "utf16 ''1,234.56''"]
    thousands_example
  by simp


section \<open>Printing a number and reading it back\<close>

subsection \<open>Integer and decimal logarithms\<close>

lemma div_ge_1: "(2::int) \<le> b \<Longrightarrow> b \<le> n \<Longrightarrow> 1 \<le> n div b"
  using pos_imp_zdiv_pos_iff [of b n] by simp

lemma mult_div_le: "(2::int) \<le> b \<Longrightarrow> b * (n div b) \<le> n"
  using mult_div_mod_eq [of b n] pos_mod_sign [of b n] by linarith

lemma lt_mult_div:
  assumes "(2::int) \<le> b"
  shows "n < b * (n div b + 1)"
proof -
  have "b * (n div b + 1) = b * (n div b) + b" by (simp add: algebra_simps)
  moreover have "n mod b < b" using assms by simp
  ultimately show ?thesis using mult_div_mod_eq [of b n] by linarith
qed

lemma ilog_bounds:
  "2 \<le> b \<Longrightarrow> 1 \<le> n \<Longrightarrow>
   0 \<le> ilog b n \<and> b ^ nat (ilog b n) \<le> n \<and> n < b ^ (nat (ilog b n) + 1)"
proof (induction b n rule: ilog.induct)
  case (1 b n)
  show ?case
  proof (cases "n < b")
    case True
    with 1 show ?thesis by (subst ilog.simps, subst ilog.simps, subst ilog.simps) simp
  next
    case False
    with 1 have d: "1 \<le> n div b"
      by (simp add: div_ge_1)
    from 1 False d have ih: "0 \<le> ilog b (n div b)" "b ^ nat (ilog b (n div b)) \<le> n div b"
      "n div b < b ^ (nat (ilog b (n div b)) + 1)"
      by auto
    have eq: "ilog b n = 1 + ilog b (n div b)"
      using 1(2) False by (subst ilog.simps) simp
    have n1: "nat (1 + ilog b (n div b)) = Suc (nat (ilog b (n div b)))"
      using ih(1) by simp
    have "b * b ^ nat (ilog b (n div b)) \<le> b * (n div b)"
      using ih(2) 1(2) by (simp add: mult_left_mono)
    also have "\<dots> \<le> n"
      using 1(2) by (rule mult_div_le)
    finally have lo: "b ^ Suc (nat (ilog b (n div b))) \<le> n" by simp
    have "n div b + 1 \<le> b ^ (nat (ilog b (n div b)) + 1)" using ih(3) by simp
    then have "b * (n div b + 1) \<le> b * b ^ (nat (ilog b (n div b)) + 1)"
      using 1(2) by (simp add: mult_left_mono)
    moreover have "n < b * (n div b + 1)"
      using 1(2) by (rule lt_mult_div)
    ultimately have hi: "n < b ^ (Suc (nat (ilog b (n div b))) + 1)" by simp
    show ?thesis using eq n1 ih(1) lo hi by simp
  qed
qed

lemma floor_log_bounds:
  assumes "0 < q" and "2 \<le> b"
  shows "of_int b powi (floor_log b q) \<le> q \<and> q < of_int b powi (floor_log b q + 1)"
proof -
  obtain a d where qd: "quotient_of q = (a, d)" by (cases "quotient_of q")
  have d: "0 < d" using qd by (rule quotient_of_denom_pos)
  have q: "q = of_int a / of_int d" using qd by (rule quotient_of_div)
  with assms(1) d have a: "0 < a" by (simp add: zero_less_divide_iff)
  let ?B = "of_int b :: rat"
  have B: "1 < ?B" "0 < ?B" using assms(2) by simp_all
  from ilog_bounds [OF assms(2), of a] a
  have la: "0 \<le> ilog b a" "b ^ nat (ilog b a) \<le> a" "a < b ^ (nat (ilog b a) + 1)" by auto
  from ilog_bounds [OF assms(2), of d] d
  have ld: "0 \<le> ilog b d" "b ^ nat (ilog b d) \<le> d" "d < b ^ (nat (ilog b d) + 1)" by auto
  let ?e0 = "ilog b a - ilog b d"
  have ra: "?B powi (ilog b a) \<le> of_int a" "of_int a < ?B powi (ilog b a + 1)"
    using la by (simp_all add: power_int_def nat_add_distrib flip: of_int_power of_int_mult)
  have rd: "?B powi (ilog b d) \<le> of_int d" "of_int d < ?B powi (ilog b d + 1)"
    using ld by (simp_all add: power_int_def nat_add_distrib flip: of_int_power of_int_mult)
  have upper: "q < ?B powi (?e0 + 1)"
  proof -
    have "q * ?B powi (ilog b d) \<le> q * of_int d"
      using rd(1) assms(1) by (simp add: mult_left_mono)
    also have "\<dots> = of_int a" using q d by simp
    also have "\<dots> < ?B powi (ilog b a + 1)" by (rule ra(2))
    also have "\<dots> = ?B powi (?e0 + 1) * ?B powi (ilog b d)"
      using B by (simp flip: power_int_add)
    finally show ?thesis using B by (simp add: zero_less_power_int)
  qed
  have lower: "?B powi (?e0 - 1) < q"
  proof -
    have "?B powi (?e0 - 1) * ?B powi (ilog b d + 1) = ?B powi (ilog b a)"
      using B by (simp flip: power_int_add)
    also have "\<dots> \<le> of_int a" by (rule ra(1))
    also have "\<dots> = q * of_int d" using q d by simp
    also have "\<dots> < q * ?B powi (ilog b d + 1)"
      using rd(2) assms(1) by (simp add: mult_strict_left_mono)
    finally show ?thesis using B by (simp add: zero_less_power_int)
  qed
  show ?thesis
  proof (cases "?B powi ?e0 \<le> q")
    case True
    then have "floor_log b q = ?e0" by (simp add: floor_log_def qd)
    with True upper show ?thesis by simp
  next
    case False
    then have "floor_log b q = ?e0 - 1" by (simp add: floor_log_def qd)
    with False lower show ?thesis by simp
  qed
qed

subsection \<open>Digits\<close>

lemma digit_cases: "(0::int) \<le> d \<Longrightarrow> d \<le> 9 \<Longrightarrow>
  d = 0 \<or> d = 1 \<or> d = 2 \<or> d = 3 \<or> d = 4 \<or> d = 5 \<or> d = 6 \<or> d = 7 \<or> d = 8 \<or> d = 9"
  by presburger

lemma digit_char_digit:
  assumes "0 \<le> d" and "d \<le> 9"
  shows "is_digit (digit_char d)" and "digit_value (digit_char d) = d"
  using digit_cases [OF assms]
  by (auto simp: digit_char_def is_digit_def digit_value_def)

lemma digits_value_snoc:
  "digits_value r (xs @ [c]) = r * digits_value r xs + digit_value c"
  by (simp add: digits_value_def)

lemma digits_value_append:
  "digits_value r (xs @ ys) = digits_value r xs * r ^ length ys + digits_value r ys"
proof (induction ys rule: rev_induct)
  case Nil
  show ?case by (simp add: digits_value_def)
next
  case (snoc y ys)
  have "digits_value r (xs @ ys @ [y]) = r * digits_value r (xs @ ys) + digit_value y"
    using digits_value_snoc [of r "xs @ ys" y] by simp
  then show ?case by (simp add: snoc.IH digits_value_snoc algebra_simps)
qed

lemma digit_value_zero: "digit_value 0x30 = 0"
  by (simp add: digit_value_def)

lemma zero_is_digit: "is_digit 0x30"
  by (simp add: is_digit_def)

lemma digits_value_zeros: "digits_value r (replicate j 0x30) = 0"
  by (induction j) (simp_all add: digits_value_def digit_value_zero)

lemma decimal_digits_small: "n < 10 \<Longrightarrow> decimal_digits n = [digit_char n]"
  by (subst decimal_digits.simps) simp

lemma decimal_digits_large:
  "\<not> n < 10 \<Longrightarrow> decimal_digits n = decimal_digits (n div 10) @ [digit_char (n mod 10)]"
  by (subst decimal_digits.simps) simp

lemma decimal_digits_not_Nil: "decimal_digits n \<noteq> []"
  by (cases "n < 10") (simp_all add: decimal_digits_small decimal_digits_large)

lemma decimal_digits_digits: "0 \<le> n \<Longrightarrow> list_all is_digit (decimal_digits n)"
proof (induction n rule: decimal_digits.induct)
  case (1 n)
  show ?case
  proof (cases "n < 10")
    case True
    with 1 show ?thesis by (simp add: decimal_digits_small digit_char_digit)
  next
    case False
    with 1 have "list_all is_digit (decimal_digits (n div 10))" by simp
    moreover have "is_digit (digit_char (n mod 10))"
      by (rule digit_char_digit) simp_all
    ultimately show ?thesis using False by (simp add: decimal_digits_large)
  qed
qed

lemma decimal_digits_value: "0 \<le> n \<Longrightarrow> digits_value 10 (decimal_digits n) = n"
proof (induction n rule: decimal_digits.induct)
  case (1 n)
  show ?case
  proof (cases "n < 10")
    case True
    with 1 show ?thesis
      by (simp add: decimal_digits_small digits_value_def digit_char_digit)
  next
    case False
    with 1 have "digits_value 10 (decimal_digits (n div 10)) = n div 10" by simp
    moreover have "digit_value (digit_char (n mod 10)) = n mod 10"
      by (rule digit_char_digit) simp_all
    ultimately show ?thesis using False
      by (simp add: decimal_digits_large digits_value_snoc)
  qed
qed

lemma decimal_digits_length:
  "10 ^ k \<le> n \<Longrightarrow> n < 10 ^ Suc k \<Longrightarrow> length (decimal_digits n) = Suc k"
proof (induction k arbitrary: n)
  case 0
  then show ?case by (simp add: decimal_digits_small)
next
  case (Suc k)
  have "(10::int) \<le> 10 ^ Suc k"
    using one_le_power [of "10::int" k] by simp
  with Suc.prems(1) have big: "\<not> n < 10" by linarith
  have "10 ^ k \<le> n div 10" using Suc.prems(1) by simp
  moreover have "n div 10 < 10 ^ Suc k" using Suc.prems(2) by simp
  ultimately have "length (decimal_digits (n div 10)) = Suc k" by (rule Suc.IH)
  with big show ?case by (simp add: decimal_digits_large)
qed

lemma ExponentPart_Nil: "ExponentPart [] = Some 0"
  by (simp add: ExponentPart_def)

lemma ExponentPart_format:
  "ExponentPart (0x65 # (if e < 0 then 0x2D else 0x2B) # decimal_digits \<bar>e\<bar>) = Some e"
  using decimal_digits_not_Nil [of "\<bar>e\<bar>"] decimal_digits_digits [of "\<bar>e\<bar>"]
    decimal_digits_value [of "\<bar>e\<bar>"]
  by (simp add: ExponentPart_def Let_def)

lemma while_head:
  "ep = [] \<or> \<not> P (hd ep) \<Longrightarrow> takeWhile P ep = [] \<and> dropWhile P ep = ep"
  by (cases ep) auto

lemma not_digit: "\<not> is_digit 0x2E" "\<not> is_digit 0x65"
  by (simp_all add: is_digit_def)

lemma digits_not_Infinity:
  assumes "ip \<noteq> []" and "list_all is_digit ip"
  shows "ip @ rest \<noteq> utf16 ''Infinity''"
proof
  assume "ip @ rest = utf16 ''Infinity''"
  then have "hd (ip @ rest) = 0x49" by (simp add: utf16_def)
  with assms(1) have "hd ip = 0x49" by simp
  moreover have "is_digit (hd ip)" using assms by (cases ip) auto
  ultimately show False by (simp add: is_digit_def)
qed

lemma StrUnsigned_integer:
  assumes "ip \<noteq> []" and "list_all is_digit ip" and "ep = [] \<or> hd ep = 0x65"
    and "ExponentPart ep = Some ex"
  shows "StrUnsignedDecimalLiteral (ip @ ep) =
           number_value (of_int (digits_value 10 ip) * 10 powi ex)"
proof -
  have ep: "takeWhile is_digit ep = []" "dropWhile is_digit ep = ep"
    using while_head [of ep is_digit] assms(3) not_digit by auto
  have ip: "\<forall>c\<in>set ip. is_digit c" using assms(2) by (simp add: list_all_iff)
  have tw: "takeWhile is_digit (ip @ ep) = ip" "dropWhile is_digit (ip @ ep) = ep"
    using ip ep by (simp_all add: takeWhile_append2 dropWhile_append2)
  have nd: "(ep \<noteq> [] \<and> hd ep = 0x2E) = False" using assms(3) by auto
  show ?thesis
    using digits_not_Infinity [OF assms(1,2), of ep] assms(1,4)
    by (simp add: StrUnsignedDecimalLiteral_def Let_def tw nd)
qed

lemma StrUnsigned_fraction:
  assumes "ip \<noteq> []" and "list_all is_digit ip" and "list_all is_digit fp"
    and "ep = [] \<or> hd ep = 0x65" and "ExponentPart ep = Some ex"
  shows "StrUnsignedDecimalLiteral (ip @ 0x2E # fp @ ep) =
           number_value (of_int (digits_value 10 (ip @ fp)) * 10 powi (ex - int (length fp)))"
proof -
  have ep: "takeWhile is_digit ep = []" "dropWhile is_digit ep = ep"
    using while_head [of ep is_digit] assms(4) not_digit by auto
  have ip: "\<forall>c\<in>set ip. is_digit c" using assms(2) by (simp add: list_all_iff)
  have fp: "\<forall>c\<in>set fp. is_digit c" using assms(3) by (simp add: list_all_iff)
  have tw: "takeWhile is_digit (ip @ 0x2E # fp @ ep) = ip"
    "dropWhile is_digit (ip @ 0x2E # fp @ ep) = 0x2E # fp @ ep"
    using ip by (simp_all add: takeWhile_append2 dropWhile_append2 not_digit)
  have tw2: "takeWhile is_digit (fp @ ep) = fp" "dropWhile is_digit (fp @ ep) = ep"
    using fp ep by (simp_all add: takeWhile_append2 dropWhile_append2)
  show ?thesis
    using digits_not_Infinity [OF assms(1,2), of "0x2E # fp @ ep"] assms(1,5)
    by (simp add: StrUnsignedDecimalLiteral_def Let_def tw tw2)
qed

subsection \<open>Reading a printed number\<close>

lemma numeric_char_not_space: "numeric_char c \<Longrightarrow> \<not> is_space c"
  by (auto simp: numeric_char_def is_digit_def is_space_def word_le_nat_alt)

lemma NonDecimalIntegerLiteral_numeric:
  "\<forall>c\<in>set s. numeric_char c \<Longrightarrow> NonDecimalIntegerLiteral s = None"
  by (auto simp: NonDecimalIntegerLiteral_def numeric_char_def is_digit_def split: list.splits)

lemma Number_numeric:
  assumes "s \<noteq> []" and "\<forall>c\<in>set s. numeric_char c" and "is_digit (hd s)"
  shows "Number s = StrUnsignedDecimalLiteral s"
proof -
  have "trim s = s"
    using assms(2) numeric_char_not_space by (intro trim_no_space) blast
  moreover have "hd s \<noteq> 0x2B" "hd s \<noteq> 0x2D"
    using assms(3) by (auto simp: is_digit_def)
  ultimately show ?thesis
    using assms(1) NonDecimalIntegerLiteral_numeric [OF assms(2)]
    by (simp add: Number_def Let_def)
qed

lemma digits_numeric: "list_all is_digit ds \<Longrightarrow> \<forall>c\<in>set ds. numeric_char c"
  by (simp add: list_all_iff numeric_char_def)

lemma numeric_consts:
  "numeric_char 0x30" "numeric_char 0x2E" "numeric_char 0x65" "numeric_char 0x2B"
  "numeric_char 0x2D"
  by (simp_all add: numeric_char_def is_digit_def)

lemma hd_digits: "ds \<noteq> [] \<Longrightarrow> list_all is_digit ds \<Longrightarrow> is_digit (hd ds)"
  by (cases ds) auto

lemma zeros_digits: "list_all is_digit (replicate j 0x30)"
  by (induction j) (simp_all add: zero_is_digit)

lemma Number_format_digits:
  assumes k: "1 \<le> k" and lo: "10 ^ nat (k - 1) \<le> s" and hi: "s < 10 ^ nat k"
  shows "Number (format_digits n k s) = number_value (of_int s * 10 powi (n - k))"
proof -
  let ?ds = "decimal_digits s"
  have s0: "0 \<le> s" using lo zero_le_power [of "10::int" "nat (k - 1)"] by linarith
  have digs: "list_all is_digit ?ds" using s0 by (rule decimal_digits_digits)
  have val: "digits_value 10 ?ds = s" using s0 by (rule decimal_digits_value)
  have "Suc (nat (k - 1)) = nat k" using k by simp
  with lo hi have len: "length ?ds = nat k"
    using decimal_digits_length [of "nat (k - 1)" s] by simp
  have ne: "?ds \<noteq> []" by (rule decimal_digits_not_Nil)
  have num: "\<forall>c\<in>set ?ds. numeric_char c" using digs by (rule digits_numeric)
  have hd: "is_digit (hd ?ds)" using ne digs by (rule hd_digits)
  let ?es = "decimal_digits \<bar>n - 1\<bar>"
  have es: "\<forall>c\<in>set ?es. numeric_char c"
    by (intro digits_numeric decimal_digits_digits) simp
  let ?ep = "0x65 # (if n - 1 < 0 then 0x2D else 0x2B) # ?es"
  have ep: "ExponentPart ?ep = Some (n - 1)" by (rule ExponentPart_format)
  have epn: "\<forall>c\<in>set ?ep. numeric_char c" using es by (simp add: numeric_consts)
  consider (a) "- 5 \<le> n" "n \<le> 21" "k \<le> n"
    | (b) "- 5 \<le> n" "n \<le> 21" "n < k" "0 < n"
    | (c) "- 5 \<le> n" "n \<le> 21" "n < k" "n \<le> 0"
    | (d) "\<not> (- 5 \<le> n \<and> n \<le> 21)" "k = 1"
    | (e) "\<not> (- 5 \<le> n \<and> n \<le> 21)" "k \<noteq> 1"
    by linarith
  then show ?thesis
  proof cases
    case a
    let ?str = "?ds @ replicate (nat (n - k)) 0x30"
    have f: "format_digits n k s = ?str @ []" using a by (simp add: format_digits_def Let_def)
    have "Number ?str = StrUnsignedDecimalLiteral ?str"
      using num ne hd by (intro Number_numeric) (auto simp: numeric_consts)
    then have "Number ?str = StrUnsignedDecimalLiteral (?str @ [])" by simp
    also have "\<dots> = number_value (of_int (digits_value 10 ?str) * 10 powi 0)"
      using ne digs by (intro StrUnsigned_integer) (simp_all add: ExponentPart_Nil zeros_digits)
    also have "digits_value 10 ?str = s * 10 ^ nat (n - k)"
      by (simp add: digits_value_append digits_value_zeros val)
    also have "of_int (s * 10 ^ nat (n - k)) * 10 powi 0 = (of_int s :: rat) * 10 powi (n - k)"
      using a by (simp add: power_int_def)
    finally show ?thesis using f by simp
  next
    case b
    let ?ip = "take (nat n) ?ds" and ?fp = "drop (nat n) ?ds"
    have f: "format_digits n k s = ?ip @ 0x2E # ?fp @ []"
      using b by (simp add: format_digits_def Let_def)
    have ip: "?ip \<noteq> []" using b ne by simp
    have ipd: "list_all is_digit ?ip" "list_all is_digit ?fp"
      using digs by (auto simp: list_all_iff dest: in_set_takeD in_set_dropD)
    have "Number (?ip @ 0x2E # ?fp @ []) = StrUnsignedDecimalLiteral (?ip @ 0x2E # ?fp @ [])"
      using ip ipd hd ne b
      by (intro Number_numeric) (auto simp: numeric_consts list_all_iff numeric_char_def)
    also have "\<dots> = number_value (of_int (digits_value 10 (?ip @ ?fp)) * 10 powi (0 - int (length ?fp)))"
      using ip ipd by (intro StrUnsigned_fraction) (simp_all add: ExponentPart_Nil)
    also have "of_int (digits_value 10 (?ip @ ?fp)) * 10 powi (0 - int (length ?fp)) =
      (of_int s :: rat) * 10 powi (n - k)"
      using b k by (simp add: val len)
    finally show ?thesis using f by simp
  next
    case c
    let ?fp = "replicate (nat (- n)) 0x30 @ ?ds"
    have f: "format_digits n k s = [0x30] @ 0x2E # ?fp @ []"
      using c by (simp add: format_digits_def Let_def)
    have fpd: "list_all is_digit ?fp" using digs by (simp add: zeros_digits)
    have "Number ([0x30] @ 0x2E # ?fp @ []) = StrUnsignedDecimalLiteral ([0x30] @ 0x2E # ?fp @ [])"
      using num by (intro Number_numeric) (auto simp: numeric_consts zero_is_digit)
    also have "\<dots> = number_value (of_int (digits_value 10 ([0x30] @ ?fp)) * 10 powi (0 - int (length ?fp)))"
      using fpd by (intro StrUnsigned_fraction) (simp_all add: ExponentPart_Nil zero_is_digit)
    also have "digits_value 10 ([0x30] @ ?fp) = s"
      using digits_value_append [of 10 "[0x30] @ replicate (nat (- n)) 0x30" ?ds]
        digits_value_append [of 10 "[0x30]" "replicate (nat (- n)) 0x30"]
      by (simp add: digits_value_zeros val) (simp add: digits_value_def digit_value_zero)
    also have "of_int s * 10 powi (0 - int (length ?fp)) = (of_int s :: rat) * 10 powi (n - k)"
      using c k by (simp add: len)
    finally show ?thesis using f by simp
  next
    case d
    have rng: "(- 5 \<le> n \<and> n \<le> 21) = False" using d(1) by simp
    have f: "format_digits n k s = ?ds @ ?ep"
      using d(2) by (simp add: format_digits_def Let_def rng)
    have "Number (?ds @ ?ep) = StrUnsignedDecimalLiteral (?ds @ ?ep)"
      using num epn ne hd by (intro Number_numeric) auto
    also have "\<dots> = number_value (of_int (digits_value 10 ?ds) * 10 powi (n - 1))"
      using ne digs ep by (intro StrUnsigned_integer) simp_all
    finally show ?thesis using f d by (simp add: val)
  next
    case e
    let ?ip = "take 1 ?ds" and ?fp = "drop 1 ?ds"
    have rng: "(- 5 \<le> n \<and> n \<le> 21) = False" using e(1) by simp
    have f: "format_digits n k s = ?ip @ 0x2E # ?fp @ ?ep"
      using e(2) by (simp add: format_digits_def Let_def rng)
    have ip: "?ip \<noteq> []" using ne by simp
    have ipd: "list_all is_digit ?ip" "list_all is_digit ?fp"
      using digs by (auto simp: list_all_iff dest: in_set_takeD in_set_dropD)
    have "Number (?ip @ 0x2E # ?fp @ ?ep) = StrUnsignedDecimalLiteral (?ip @ 0x2E # ?fp @ ?ep)"
    proof (intro Number_numeric)
      show "?ip @ 0x2E # ?fp @ ?ep \<noteq> []" by simp
      show "\<forall>c\<in>set (?ip @ 0x2E # ?fp @ ?ep). numeric_char c"
        using ipd epn by (auto simp: numeric_consts list_all_iff numeric_char_def)
      show "is_digit (hd (?ip @ 0x2E # ?fp @ ?ep))"
        using ip hd ne by (cases ?ds) auto
    qed
    also have "\<dots> = number_value (of_int (digits_value 10 (?ip @ ?fp)) * 10 powi (n - 1 - int (length ?fp)))"
      using ip ipd ep by (intro StrUnsigned_fraction) simp_all
    also have "of_int (digits_value 10 (?ip @ ?fp)) * 10 powi (n - 1 - int (length ?fp)) =
      (of_int s :: rat) * 10 powi (n - k)"
      using k by (simp add: val len)
    finally show ?thesis using f by simp
  qed
qed

subsection \<open>The shortest digits\<close>

lemma pow10_pos: "0 < (10::rat) powi e"
  by (simp add: zero_less_power_int)

lemma digits_candidate_sound:
  assumes c: "digits_candidate q n0 k = Some (n, k', s)"
    and k: "1 \<le> k" and lo: "10 powi (n0 - 1) \<le> q" and hi: "q < 10 powi n0"
  shows "k' = k \<and> 10 ^ nat (k - 1) \<le> s \<and> s < 10 ^ nat k \<and>
         number_value (of_int s * 10 powi (n - k)) = Finite q"
proof -
  let ?scale = "(10::rat) powi (n0 - k)"
  let ?x = "q / ?scale"
  let ?lo = "\<lfloor>?x\<rfloor>"
  have sc: "0 < ?scale" by (rule pow10_pos)
  have "(10::rat) powi (k - 1) * ?scale = 10 powi (n0 - 1)"
    by (simp flip: power_int_add)
  with lo sc have "(10::rat) powi (k - 1) \<le> ?x"
    by (simp add: pos_le_divide_eq)
  moreover have pk1: "(10::rat) powi (k - 1) = of_int (10 ^ nat (k - 1))"
    using k by (simp add: power_int_def)
  ultimately have lo1: "10 ^ nat (k - 1) \<le> ?lo"
    by (simp add: le_floor_iff)
  have "(10::rat) powi k * ?scale = 10 powi n0"
    by (simp flip: power_int_add)
  with hi sc have "?x < (10::rat) powi k"
    by (simp add: pos_divide_less_eq)
  moreover have pk: "(10::rat) powi k = of_int (10 ^ nat k)"
    using k by (simp add: power_int_def)
  ultimately have lo2: "?lo < 10 ^ nat k"
    by (simp add: floor_less_iff)
  have top: "of_int (10 ^ nat (k - 1)) * (10::rat) powi (n0 + 1 - k) =
             of_int (10 ^ nat k) * 10 powi (n0 - k)"
    unfolding pk1 [symmetric] pk [symmetric] by (simp flip: power_int_add)
  have mono: "(10::int) ^ nat (k - 1) \<le> 10 ^ nat k"
    by (rule power_increasing) simp_all
  define l where "l = ?lo"
  define ok_lo where "ok_lo \<longleftrightarrow> number_value (of_int l * ?scale) = Finite q"
  define ok_hi where "ok_hi \<longleftrightarrow> number_value (of_int (l + 1) * ?scale) = Finite q"
  define pick_lo where "pick_lo \<longleftrightarrow>
    ok_lo \<and> (\<not> ok_hi \<or> q - of_int l * ?scale < of_int (l + 1) * ?scale - q \<or>
      (q - of_int l * ?scale = of_int (l + 1) * ?scale - q \<and> even l))"
  have c': "(if pick_lo then Some (n0, k, l)
             else if ok_hi then
               (if l + 1 = 10 ^ nat k then Some (n0 + 1, k, 10 ^ nat (k - 1))
                else Some (n0, k, l + 1))
             else None) = Some (n, k', s)"
    using c by (simp only: digits_candidate_def Let_def l_def ok_lo_def ok_hi_def pick_lo_def)
  have l1: "10 ^ nat (k - 1) \<le> l" and l2: "l < 10 ^ nat k"
    using lo1 lo2 by (simp_all only: l_def)
  show ?thesis
  proof (cases pick_lo)
    case True
    with c' have r: "n = n0" "k' = k" "s = l" by auto
    from True have "ok_lo" by (simp add: pick_lo_def)
    then have "number_value (of_int s * 10 powi (n - k)) = Finite q"
      by (simp only: ok_lo_def r)
    with r l1 l2 show ?thesis by simp
  next
    case False
    show ?thesis
    proof (cases ok_hi)
      case ok: True
      show ?thesis
      proof (cases "l + 1 = 10 ^ nat k")
        case True
        with c' False ok have r: "n = n0 + 1" "k' = k" "s = 10 ^ nat (k - 1)" by auto
        from ok have "number_value (of_int (10 ^ nat k) * ?scale) = Finite q"
          by (simp only: ok_hi_def True)
        then have "number_value (of_int s * 10 powi (n - k)) = Finite q"
          by (simp only: r top)
        with r mono k show ?thesis by simp
      next
        case ne: False
        with c' False ok have r: "n = n0" "k' = k" "s = l + 1" by auto
        from ok have "number_value (of_int s * 10 powi (n - k)) = Finite q"
          by (simp only: ok_hi_def r)
        with r ne l1 l2 show ?thesis by simp
      qed
    next
      case no: False
      with c' False show ?thesis by simp
    qed
  qed
qed

lemma shortest_search_unfold:
  "shortest_search q n0 k kmax =
     (if kmax < k then None
      else if digits_candidate q n0 k \<noteq> None then digits_candidate q n0 k
      else shortest_search q n0 (k + 1) kmax)"
  by (rule shortest_search.simps)

lemma shortest_search_sound:
  "shortest_search q n0 k kmax = Some r \<Longrightarrow>
   \<exists>k'. k \<le> k' \<and> k' \<le> kmax \<and> digits_candidate q n0 k' = Some r"
proof (induction q n0 k kmax rule: shortest_search.induct)
  case (1 q n0 k kmax)
  show ?case
  proof (cases "kmax < k")
    case True
    with "1.prems" show ?thesis by (subst (asm) shortest_search_unfold) simp
  next
    case False
    show ?thesis
    proof (cases "digits_candidate q n0 k = None")
      case None: True
      with False "1.prems" have "shortest_search q n0 (k + 1) kmax = Some r"
        by (subst (asm) shortest_search_unfold) simp
      with "1.IH" False None obtain k' where
        "k + 1 \<le> k'" "k' \<le> kmax" "digits_candidate q n0 k' = Some r" by auto
      then show ?thesis by (intro exI [of _ k']) simp
    next
      case Some: False
      with False "1.prems" have "digits_candidate q n0 k = Some r"
        by (subst (asm) shortest_search_unfold) simp
      with False show ?thesis by (intro exI [of _ k]) simp
    qed
  qed
qed

lemma shortest_search_complete:
  "k \<le> k' \<Longrightarrow> k' \<le> kmax \<Longrightarrow> digits_candidate q n0 k' \<noteq> None \<Longrightarrow>
   shortest_search q n0 k kmax \<noteq> None"
proof (induction q n0 k kmax rule: shortest_search.induct)
  case (1 q n0 k kmax)
  show ?case
  proof (cases "digits_candidate q n0 k = None")
    case True
    with "1.prems" have "k \<noteq> k'" by auto
    with "1.prems" have "k + 1 \<le> k'" by simp
    with "1.IH" "1.prems" True have "shortest_search q n0 (k + 1) kmax \<noteq> None" by simp
    with True "1.prems" show ?thesis by (subst shortest_search_unfold) simp
  next
    case False
    with "1.prems" show ?thesis by (subst shortest_search_unfold) simp
  qed
qed

lemma is_double_pos:
  assumes "is_double q" and "0 < q"
  shows "\<exists>m p. q = of_int m * 2 powi p \<and> - 1074 \<le> p \<and> 0 < m"
proof -
  define p where "p = max (floor_log 2 q - 52) (- 1074)"
  define m where "m = round_half_even (q / 2 powi p)"
  have "number_value_pos q = Finite q"
    using assms by (simp add: is_double_def number_value_def)
  then have "(if 1024 \<le> p + ilog 2 m then PosInfinity else Finite (of_int m * 2 powi p)) = Finite q"
    by (simp only: number_value_pos_def Let_def p_def m_def)
  then have q: "q = of_int m * 2 powi p"
    by (simp split: if_splits)
  have "0 < (2::rat) powi p" by (simp add: zero_less_power_int)
  with q assms(2) have "0 < m" by (simp add: zero_less_mult_iff)
  moreover have "- 1074 \<le> p" by (simp add: p_def)
  ultimately show ?thesis using q by blast
qed

lemma double_scaled_int:
  assumes "(q::rat) = of_int m * 2 powi p" and "- int j \<le> p"
  shows "\<exists>N. q * 10 ^ j = of_int N"
proof -
  have "(10::rat) ^ j = 2 ^ j * 5 ^ j"
    by (simp flip: power_mult_distrib)
  moreover have "(2::rat) powi p * 2 ^ j = 2 powi (p + int j)"
    by (simp add: power_int_add)
  moreover have "(2::rat) powi (p + int j) = of_int (2 ^ nat (p + int j))"
    using assms(2) by (simp add: power_int_def)
  ultimately have "q * 10 ^ j = of_int (m * 2 ^ nat (p + int j) * 5 ^ j)"
    using assms(1) by (simp add: mult.assoc)
  then show ?thesis ..
qed

lemma candidate_exact:
  assumes d: "is_double q" and N: "q * 10 ^ j = of_int N" and k: "k = n0 + int j"
  shows "digits_candidate q n0 k \<noteq> None"
proof -
  let ?scale = "(10::rat) powi (n0 - k)"
  have sc: "?scale = inverse (10 ^ j)"
    using k by (simp add: power_int_minus)
  have sc0: "0 < ?scale" by (simp add: zero_less_power_int)
  have x: "q / ?scale = of_int N"
    using N by (simp add: sc divide_inverse)
  define l where "l = \<lfloor>q / ?scale\<rfloor>"
  have lN: "l = N" using x by (simp add: l_def)
  have "q = of_int N * ?scale"
    using x sc0 by (simp add: field_simps)
  then have l: "of_int l * ?scale = q" by (simp add: lN)
  define ok_lo where "ok_lo \<longleftrightarrow> number_value (of_int l * ?scale) = Finite q"
  define ok_hi where "ok_hi \<longleftrightarrow> number_value (of_int (l + 1) * ?scale) = Finite q"
  define pick_lo where "pick_lo \<longleftrightarrow>
    ok_lo \<and> (\<not> ok_hi \<or> q - of_int l * ?scale < of_int (l + 1) * ?scale - q \<or>
      (q - of_int l * ?scale = of_int (l + 1) * ?scale - q \<and> even l))"
  have c: "digits_candidate q n0 k =
           (if pick_lo then Some (n0, k, l)
             else if ok_hi then
               (if l + 1 = 10 ^ nat k then Some (n0 + 1, k, 10 ^ nat (k - 1))
                else Some (n0, k, l + 1))
             else None)"
    by (simp only: digits_candidate_def Let_def l_def ok_lo_def ok_hi_def pick_lo_def)
  have "ok_lo" using d by (simp add: ok_lo_def l is_double_def)
  moreover have "q - of_int l * ?scale < of_int (l + 1) * ?scale - q"
    using sc0 by (simp add: l algebra_simps)
  ultimately have pick_lo by (simp add: pick_lo_def)
  with c show ?thesis by simp
qed

lemma pow10_le_pow2: "(10::rat) powi (- int j) \<le> 2 powi (- int j)"
proof -
  have "(2::rat) ^ j \<le> 10 ^ j" by (rule power_mono) simp_all
  then show ?thesis
    by (simp add: power_int_minus field_simps)
qed

lemma n0_lower:
  assumes q: "(q::rat) = of_int m * 2 powi p" and p: "- int j \<le> p" and m: "0 < m"
    and hi: "q < 10 powi n0"
  shows "- int j < n0"
proof (rule ccontr)
  assume "\<not> - int j < n0"
  then have "n0 \<le> - int j" by simp
  then have "(10::rat) powi n0 \<le> 10 powi (- int j)"
    by (intro power_int_increasing) simp_all
  also have "\<dots> \<le> 2 powi (- int j)" by (rule pow10_le_pow2)
  also have "\<dots> \<le> 2 powi p"
    using p by (intro power_int_increasing) simp_all
  also have "\<dots> \<le> of_int m * 2 powi p"
    using m by (simp add: zero_less_power_int)
  finally show False using q hi by simp
qed

lemma shortest_digits_double:
  assumes d: "is_double q" and pos: "0 < q"
  shows "\<exists>n k s. shortest_digits q = (n, k, s) \<and> 1 \<le> k \<and>
           10 ^ nat (k - 1) \<le> s \<and> s < 10 ^ nat k \<and>
           number_value (of_int s * 10 powi (n - k)) = Finite q"
proof -
  define n0 where "n0 = floor_log 10 q + 1"
  have b: "10 powi (n0 - 1) \<le> q" "q < 10 powi n0"
    using floor_log_bounds [OF pos, of 10] by (simp_all add: n0_def)
  from is_double_pos [OF d pos] obtain m p where
    q: "q = of_int m * 2 powi p" and p: "- int 1074 \<le> p" and m: "0 < m" by auto
  from double_scaled_int [OF q p] obtain N where N: "q * 10 ^ 1074 = of_int N" ..
  have k1: "1 \<le> n0 + int 1074"
    using n0_lower [OF q p m b(2)] by simp
  have "digits_candidate q n0 (n0 + int 1074) \<noteq> None"
    using d N by (rule candidate_exact) simp
  with k1 have "shortest_search q n0 1 (n0 + int 1074) \<noteq> None"
    by (intro shortest_search_complete [where k' = "n0 + int 1074"]) simp_all
  then obtain r where r: "shortest_search q n0 1 (n0 + 1074) = Some r" by auto
  then have sd: "shortest_digits q = r"
    by (simp add: shortest_digits_def Let_def n0_def)
  obtain n k s where nks: "r = (n, k, s)" by (cases r)
  from shortest_search_sound [OF r] obtain k' where
    k': "1 \<le> k'" and c: "digits_candidate q n0 k' = Some (n, k, s)"
    using nks by auto
  from digits_candidate_sound [OF c k' b] k' sd nks show ?thesis by auto
qed

subsection \<open>\<^verbatim>\<open>Number(String(x))\<close> is \<open>x\<close>\<close>

lemma format_digits_numeric:
  assumes k: "1 \<le> k" and lo: "10 ^ nat (k - 1) \<le> s"
  shows "format_digits n k s \<noteq> [] \<and> (\<forall>c\<in>set (format_digits n k s). numeric_char c) \<and>
         is_digit (hd (format_digits n k s))"
proof -
  let ?ds = "decimal_digits s"
  have s0: "0 \<le> s" using lo zero_le_power [of "10::int" "nat (k - 1)"] by linarith
  have digs: "list_all is_digit ?ds" using s0 by (rule decimal_digits_digits)
  have ne: "?ds \<noteq> []" by (rule decimal_digits_not_Nil)
  have num: "\<forall>c\<in>set ?ds. numeric_char c" using digs by (rule digits_numeric)
  have hd: "is_digit (hd ?ds)" using ne digs by (rule hd_digits)
  have es: "\<forall>c\<in>set (decimal_digits \<bar>n - 1\<bar>). numeric_char c"
    by (intro digits_numeric decimal_digits_digits) simp
  have tk: "\<forall>c\<in>set (take j ?ds). numeric_char c" "\<forall>c\<in>set (drop j ?ds). numeric_char c" for j
    using num by (auto dest: in_set_takeD in_set_dropD)
  have hdt: "0 < j \<Longrightarrow> hd (take j ?ds @ r) = hd ?ds" for j r
    using ne by (cases ?ds; cases j) auto
  have hda: "hd (?ds @ r) = hd ?ds" for r
    using ne by simp
  show ?thesis
    using ne num hd es tk
    by (auto simp: format_digits_def Let_def numeric_consts zero_is_digit hdt hda)
qed

lemma Number_minus:
  assumes "s \<noteq> []" and "\<forall>c\<in>set s. numeric_char c" and "is_digit (hd s)"
  shows "Number (0x2D # s) = negate (Number s)"
proof -
  have all: "\<forall>c\<in>set (0x2D # s). numeric_char c"
    using assms(2) by (simp add: numeric_consts)
  then have "trim (0x2D # s) = 0x2D # s"
    using numeric_char_not_space by (intro trim_no_space) blast
  then have "Number (0x2D # s) = negate (StrUnsignedDecimalLiteral s)"
    using NonDecimalIntegerLiteral_numeric [OF all] by (simp add: Number_def Let_def)
  then show ?thesis using Number_numeric [OF assms] by simp
qed

lemma Number_special:
  "Number (utf16 ''NaN'') = NaN"
  "Number (utf16 ''Infinity'') = PosInfinity"
  "Number (utf16 ''-Infinity'') = NegInfinity"
  "Number (utf16 ''0'') = Finite 0"
  by code_simp+

lemma Number_toString_double:
  assumes "is_double q" and "0 < q"
  shows "Number (case shortest_digits q of (n, k, s) \<Rightarrow> format_digits n k s) = Finite q"
    and "(case shortest_digits q of (n, k, s) \<Rightarrow> format_digits n k s) \<noteq> []"
    and "\<forall>c\<in>set (case shortest_digits q of (n, k, s) \<Rightarrow> format_digits n k s). numeric_char c"
    and "is_digit (hd (case shortest_digits q of (n, k, s) \<Rightarrow> format_digits n k s))"
proof -
  from shortest_digits_double [OF assms] obtain n k s where
    sd: "shortest_digits q = (n, k, s)" and k: "1 \<le> k"
    and lo: "10 ^ nat (k - 1) \<le> s" and hi: "s < 10 ^ nat k"
    and nv: "number_value (of_int s * 10 powi (n - k)) = Finite q"
    by blast
  show "Number (case shortest_digits q of (n, k, s) \<Rightarrow> format_digits n k s) = Finite q"
    using Number_format_digits [OF k lo hi, of n] nv by (simp add: sd)
  show "(case shortest_digits q of (n, k, s) \<Rightarrow> format_digits n k s) \<noteq> []"
    "\<forall>c\<in>set (case shortest_digits q of (n, k, s) \<Rightarrow> format_digits n k s). numeric_char c"
    "is_digit (hd (case shortest_digits q of (n, k, s) \<Rightarrow> format_digits n k s))"
    using format_digits_numeric [OF k lo, of n] by (simp_all add: sd)
qed

lemma is_double_neg:
  assumes "is_double q" and "q < 0"
  shows "is_double (- q)"
proof -
  have "negate (number_value_pos (- q)) = Finite q"
    using assms by (simp add: is_double_def number_value_def)
  then have "number_value_pos (- q) = Finite (- q)"
    by (cases "number_value_pos (- q)") (simp_all add: negate_def)
  with assms(2) show ?thesis by (simp add: is_double_def number_value_def)
qed

lemma Number_toString_inverse:
  assumes "is_Number x"
  shows "Number (Number_toString x) = x"
proof (cases x)
  case (Finite q)
  with assms have d: "is_double q" by (simp add: is_Number_def)
  consider "q = 0" | "0 < q" | "q < 0" by linarith
  then show ?thesis
  proof cases
    case 1
    with Finite show ?thesis by (simp add: Number_toString_def Number_special)
  next
    case 2
    with Finite Number_toString_double(1) [OF d 2] show ?thesis
      by (simp add: Number_toString_def)
  next
    case 3
    then have pos: "0 < - q" by simp
    have dn: "is_double (- q)" using d 3 by (rule is_double_neg)
    let ?str = "case shortest_digits (- q) of (n, k, s) \<Rightarrow> format_digits n k s"
    have "Number (0x2D # ?str) = negate (Number ?str)"
      using Number_toString_double(2-4) [OF dn pos] by (rule Number_minus)
    also have "\<dots> = Finite q"
      using Number_toString_double(1) [OF dn pos] by (simp add: negate_def)
    finally show ?thesis using Finite 3 by (simp add: Number_toString_def)
  qed
qed (simp_all add: Number_toString_def Number_special)

lemma Number_toString_inj:
  "is_Number x \<Longrightarrow> is_Number y \<Longrightarrow> Number_toString x = Number_toString y \<Longrightarrow> x = y"
  by (metis Number_toString_inverse)

lemma underscore_not_numeric: "\<not> numeric_char 0x5F"
  by (simp add: numeric_char_def is_digit_def)

lemma special_no_underscore:
  "0x5F \<notin> set (utf16 ''NaN'')" "0x5F \<notin> set (utf16 ''Infinity'')"
  "0x5F \<notin> set (utf16 ''-Infinity'')" "0x5F \<notin> set (utf16 ''0'')"
  by (simp_all add: utf16_def)

lemma Number_toString_no_underscore:
  assumes "is_Number x"
  shows "0x5F \<notin> set (Number_toString x)"
proof (cases x)
  case (Finite q)
  with assms have d: "is_double q" by (simp add: is_Number_def)
  consider "q = 0" | "0 < q" | "q < 0" by linarith
  then show ?thesis
  proof cases
    case 1
    with Finite show ?thesis by (simp add: Number_toString_def special_no_underscore)
  next
    case 2
    with Finite Number_toString_double(3) [OF d 2] underscore_not_numeric show ?thesis
      by (auto simp: Number_toString_def)
  next
    case 3
    then have pos: "0 < - q" by simp
    have dn: "is_double (- q)" using d 3 by (rule is_double_neg)
    with Finite 3 Number_toString_double(3) [OF dn pos] underscore_not_numeric show ?thesis
      by (auto simp: Number_toString_def)
  qed
qed (simp_all add: Number_toString_def special_no_underscore)

lemma takeWhile_delimiter: "c \<notin> set a \<Longrightarrow> takeWhile (\<lambda>x. x \<noteq> c) (a @ c # r) = a"
  by (induction a) auto

lemma split_at_delimiter:
  assumes "c \<notin> set a" and "c \<notin> set a'" and "a @ c # r = a' @ c # r'"
  shows "a = a' \<and> r = r'"
proof -
  have "takeWhile (\<lambda>x. x \<noteq> c) (a @ c # r) = a" "takeWhile (\<lambda>x. x \<noteq> c) (a' @ c # r') = a'"
    by (simp_all add: takeWhile_delimiter assms(1,2))
  with assms(3) have "a = a'" by simp
  with assms(3) show ?thesis by simp
qed

lemma split_at_last_delimiter:
  assumes "c \<notin> set p" and "c \<notin> set p'" and "r @ c # p = r' @ c # p'"
  shows "r = r' \<and> p = p'"
proof -
  have "rev p @ c # rev r = rev p' @ c # rev r'"
    using arg_cong [OF assms(3), of rev] by simp
  then have "rev p = rev p' \<and> rev r = rev r'"
    using assms(1,2) by (intro split_at_delimiter) simp_all
  then show ?thesis by simp
qed

lemma signature_parts:
  assumes names: "(0x5F \<notin> set n \<and> 0x5F \<notin> set n') \<or> (0x5F \<notin> set t \<and> 0x5F \<notin> set t')"
    and prices: "0x5F \<notin> set p" "0x5F \<notin> set p'"
    and eq: "n @ utf16 ''__'' @ t @ utf16 ''__'' @ p = n' @ utf16 ''__'' @ t' @ utf16 ''__'' @ p'"
  shows "n = n' \<and> t = t' \<and> p = p'"
proof -
  have u: "utf16 ''__'' = [0x5F, 0x5F]" by (simp add: utf16_def)
  from eq have e1: "(n @ 0x5F # 0x5F # t @ [0x5F]) @ 0x5F # p = (n' @ 0x5F # 0x5F # t' @ [0x5F]) @ 0x5F # p'"
    by (simp add: u)
  from split_at_last_delimiter [OF prices e1]
  have p: "p = p'" and e2: "n @ 0x5F # 0x5F # t @ [0x5F] = n' @ 0x5F # 0x5F # t' @ [0x5F]"
    by simp_all
  then have e3: "n @ 0x5F # 0x5F # t = n' @ 0x5F # 0x5F # t'"
    by (metis append_Cons append_assoc butlast_snoc)
  from names show ?thesis
  proof
    assume "0x5F \<notin> set n \<and> 0x5F \<notin> set n'"
    with e3 have "n = n' \<and> 0x5F # t = 0x5F # t'"
      by (intro split_at_delimiter) simp_all
    with p show ?thesis by simp
  next
    assume "0x5F \<notin> set t \<and> 0x5F \<notin> set t'"
    moreover from e3 have "(n @ [0x5F]) @ 0x5F # t = (n' @ [0x5F]) @ 0x5F # t'" by simp
    ultimately have "n @ [0x5F] = n' @ [0x5F] \<and> t = t'"
      by (intro split_at_last_delimiter) simp_all
    with p show ?thesis by simp
  qed
qed


section \<open>The signature\<close>

lemma toString_examples:
  "Number_toString (number_value (2499 / 100)) = utf16 ''24.99''"
  "Number_toString (number_value (2599 / 100)) = utf16 ''25.99''"
  by code_simp+

lemma example_prices:
  "is_Number (number_value (2499 / 100))" "is_Number (number_value (2599 / 100))"
  "number_value (2499 / 100) \<noteq> number_value (2599 / 100)"
  by code_simp+

lemma toString_1: "Number_toString (Finite 1) = utf16 ''1''"
  by code_simp


text \<open>
  Claim C2. For every input, \<^verbatim>\<open>buildScrapedOrder\<close> returns an order whose
  \<open>restaurantName\<close>, \<open>totalPrice\<close> and \<open>orderedAtText\<close> are the input's and whose
  \<open>sourceSignature\<close> is the name, \<^verbatim>\<open>"__"\<close>, the timestamp text, \<^verbatim>\<open>"__"\<close> and
  the decimal rendering of the price; the inputs \<^verbatim>\<open>"Example"\<close>, \<^verbatim>\<open>24.99\<close> (the
  Number value for 24.99) and \<^verbatim>\<open>"Feb 22, 2026, 10:09:13 AM"\<close> give the signature
  \<^verbatim>\<open>"Example__Feb 22, 2026, 10:09:13 AM__24.99"\<close>.
\<close>

theorem buildScrapedOrder_signature:
  "restaurantName (buildScrapedOrder input) = restaurantName input \<and>
   totalPrice (buildScrapedOrder input) = totalPrice input \<and>
   orderedAtText (buildScrapedOrder input) = orderedAtText input \<and>
   sourceSignature (buildScrapedOrder input) =
     restaurantName input @ utf16 ''__'' @ orderedAtText input @ utf16 ''__''
       @ Number_toString (totalPrice input) \<and>
   buildScrapedOrder
     \<lparr>restaurantName = utf16 ''Example'', totalPrice = number_value (2499 / 100),
      orderedAtText = utf16 ''Feb 22, 2026, 10:09:13 AM''\<rparr> =
     \<lparr>restaurantName = utf16 ''Example'', totalPrice = number_value (2499 / 100),
      orderedAtText = utf16 ''Feb 22, 2026, 10:09:13 AM'',
      sourceSignature = utf16 ''Example__Feb 22, 2026, 10:09:13 AM__24.99''\<rparr>"
  by (simp add: buildScrapedOrder_def toString_examples) (simp add: utf16_def)


lemma sourceSignature_build:
  "sourceSignature (buildScrapedOrder a) =
     restaurantName a @ utf16 ''__'' @ orderedAtText a @ utf16 ''__''
       @ Number_toString (totalPrice a)"
  by (simp add: buildScrapedOrder_def)

lemma sourceSignature_inj:
  assumes "is_Number (totalPrice a)" and "is_Number (totalPrice b)"
    and "(0x5F \<notin> set (restaurantName a) \<and> 0x5F \<notin> set (restaurantName b)) \<or>
         (0x5F \<notin> set (orderedAtText a) \<and> 0x5F \<notin> set (orderedAtText b))"
    and "sourceSignature (buildScrapedOrder a) = sourceSignature (buildScrapedOrder b)"
  shows "a = (b :: OrderInput)"
proof -
  have "restaurantName a = restaurantName b \<and> orderedAtText a = orderedAtText b \<and>
        Number_toString (totalPrice a) = Number_toString (totalPrice b)"
    using assms(3) Number_toString_no_underscore [OF assms(1)]
      Number_toString_no_underscore [OF assms(2)] assms(4)
    unfolding sourceSignature_build by (rule signature_parts)
  moreover from this have "totalPrice a = totalPrice b"
    using Number_toString_inj [OF assms(1,2)] by simp
  ultimately show ?thesis by simp
qed

text \<open>
  Claim C3, as amended. Two inputs whose prices are Number values and whose restaurant
  names contain no underscore, or whose timestamp texts contain none, have distinct
  signatures whenever they differ in at least one of the three fields. For every name
  and timestamp, changing the price from 24.99 to 25.99 changes the signature.
\<close>

theorem sourceSignature_injective:
  "(is_Number (totalPrice a) \<and> is_Number (totalPrice b) \<and>
    ((0x5F \<notin> set (restaurantName a) \<and> 0x5F \<notin> set (restaurantName b)) \<or>
     (0x5F \<notin> set (orderedAtText a) \<and> 0x5F \<notin> set (orderedAtText b))) \<and>
    a \<noteq> (b :: OrderInput) \<longrightarrow>
    sourceSignature (buildScrapedOrder a) \<noteq> sourceSignature (buildScrapedOrder b)) \<and>
   sourceSignature (buildScrapedOrder
      \<lparr>restaurantName = name, totalPrice = number_value (2499 / 100), orderedAtText = text\<rparr>) \<noteq>
   sourceSignature (buildScrapedOrder
      \<lparr>restaurantName = name, totalPrice = number_value (2599 / 100), orderedAtText = text\<rparr>)"
proof -
  have "utf16 ''24.99'' \<noteq> utf16 ''25.99''" by (simp add: utf16_def)
  then show ?thesis
    using sourceSignature_inj [of a b]
    by (auto simp: sourceSignature_build toString_examples)
qed

theorem sourceSignature_injective_witness:
  "sourceSignature (buildScrapedOrder
      \<lparr>restaurantName = utf16 ''Example_1'', totalPrice = number_value (2499 / 100),
       orderedAtText = utf16 ''Feb 22, 2026, 10:09:13 AM''\<rparr>) \<noteq>
   sourceSignature (buildScrapedOrder
      \<lparr>restaurantName = utf16 ''Example'', totalPrice = number_value (2599 / 100),
       orderedAtText = utf16 ''Feb 22, 2026, 10:09:13 AM''\<rparr>)"
proof -
  have "0x5F \<notin> set (utf16 ''Feb 22, 2026, 10:09:13 AM'')" by (simp add: utf16_def)
  then show ?thesis
    using sourceSignature_injective
      [of "\<lparr>restaurantName = utf16 ''Example_1'', totalPrice = number_value (2499 / 100),
            orderedAtText = utf16 ''Feb 22, 2026, 10:09:13 AM''\<rparr>"
          "\<lparr>restaurantName = utf16 ''Example'', totalPrice = number_value (2599 / 100),
            orderedAtText = utf16 ''Feb 22, 2026, 10:09:13 AM''\<rparr>"]
      example_prices
    by simp
qed

text \<open>
  The claim as it was stated fails where a name or a timestamp holds the delimiter: the
  name \<^verbatim>\<open>A__B\<close> with the timestamp \<^verbatim>\<open>C\<close> and the name \<^verbatim>\<open>A\<close> with the
  timestamp \<^verbatim>\<open>B__C\<close> are different inputs with one signature.
\<close>

theorem sourceSignature_collision:
  "\<lparr>restaurantName = utf16 ''A__B'', totalPrice = Finite 1, orderedAtText = utf16 ''C''\<rparr> \<noteq>
   \<lparr>restaurantName = utf16 ''A'', totalPrice = Finite 1, orderedAtText = utf16 ''B__C''\<rparr> \<and>
   sourceSignature (buildScrapedOrder
     \<lparr>restaurantName = utf16 ''A__B'', totalPrice = Finite 1, orderedAtText = utf16 ''C''\<rparr>) =
     utf16 ''A__B__C__1'' \<and>
   sourceSignature (buildScrapedOrder
     \<lparr>restaurantName = utf16 ''A'', totalPrice = Finite 1, orderedAtText = utf16 ''B__C''\<rparr>) =
     utf16 ''A__B__C__1''"
  by (simp add: sourceSignature_build toString_1) (simp add: utf16_def)


section \<open>Expansion of the table\<close>

lemma expand_loop_cap:
  "240 < i \<Longrightarrow> iterations (expand_loop debug counts i prev passes out) = i - 1"
  by (subst expand_loop.simps) simp

lemma expand_loop_grow:
  "i \<le> 240 \<Longrightarrow> prev < counts i \<Longrightarrow>
   expand_loop debug counts i prev passes out =
     expand_loop debug counts (i + 1) (counts i) 0 (out @ expand_line debug i prev (counts i))"
  by (subst expand_loop.simps) simp

lemma expand_loop_stable:
  "i \<le> 240 \<Longrightarrow> counts i \<le> prev \<Longrightarrow> passes < 2 \<Longrightarrow>
   expand_loop debug counts i prev passes out =
     expand_loop debug counts (i + 1) prev (passes + 1) (out @ expand_line debug i prev (counts i))"
  by (subst expand_loop.simps) simp

lemma expand_loop_break:
  "i \<le> 240 \<Longrightarrow> counts i \<le> prev \<Longrightarrow> 2 \<le> passes \<Longrightarrow>
   iterations (expand_loop debug counts i prev passes out) = i"
  by (subst expand_loop.simps) simp

lemma expand_loop_no_growth:
  assumes "\<forall>j. i \<le> j \<longrightarrow> counts j \<le> prev" and "passes \<le> 2" and "i \<le> 241"
  shows "iterations (expand_loop debug counts i prev passes out) = min (i + (2 - passes)) 240"
  using assms
proof (induction "2 - passes" arbitrary: i passes out)
  case 0
  then have p: "passes = 2" by simp
  show ?case
  proof (cases "240 < i")
    case True
    with 0 show ?thesis by (simp add: expand_loop_cap)
  next
    case False
    with 0 p show ?thesis by (simp add: expand_loop_break)
  qed
next
  case (Suc n)
  then have p: "passes < 2" by simp
  show ?case
  proof (cases "240 < i")
    case True
    with Suc show ?thesis by (simp add: expand_loop_cap)
  next
    case False
    then have i: "i \<le> 240" by simp
    have "iterations (expand_loop debug counts i prev passes out) =
          iterations (expand_loop debug counts (i + 1) prev (passes + 1)
            (out @ expand_line debug i prev (counts i)))"
      using Suc.prems i p by (simp add: expand_loop_stable)
    also have "\<dots> = min (i + 1 + (2 - (passes + 1))) 240"
      using Suc.hyps(2) Suc.prems i p by (intro Suc.hyps(1)) auto
    finally show ?thesis using p by simp
  qed
qed

lemma expand_loop_growth:
  assumes "stops_growing_after counts K" and "1 \<le> i" and "i \<le> K + 1" and "i \<le> 241"
  shows "iterations (expand_loop debug counts i (counts (i - 1)) 0 out) = min (K + 3) 240"
  using assms(2-)
proof (induction "K + 1 - i" arbitrary: i out)
  case 0
  then have i: "i = K + 1" by simp
  have "\<forall>j. i \<le> j \<longrightarrow> counts j \<le> counts (i - 1)"
    using assms(1) i by (simp add: stops_growing_after_def)
  then have "iterations (expand_loop debug counts i (counts (i - 1)) 0 out) = min (i + (2 - 0)) 240"
    using 0 by (intro expand_loop_no_growth) auto
  with i show ?case by simp
next
  case (Suc n)
  then have iK: "i \<le> K" by simp
  show ?case
  proof (cases "240 < i")
    case True
    with Suc.prems iK show ?thesis by (simp add: expand_loop_cap)
  next
    case False
    then have i: "i \<le> 240" by simp
    have g: "counts (i - 1) < counts i"
      using assms(1) Suc.prems iK by (simp add: stops_growing_after_def)
    have "iterations (expand_loop debug counts i (counts (i - 1)) 0 out) =
          iterations (expand_loop debug counts (i + 1) (counts (i + 1 - 1)) 0
            (out @ expand_line debug i (counts (i - 1)) (counts i)))"
      using i g by (simp add: expand_loop_grow)
    also have "\<dots> = min (K + 3) 240"
      using Suc.hyps(2) Suc.prems iK i by (intro Suc.hyps(1)) auto
    finally show ?thesis .
  qed
qed

lemma expand_loop_bound:
  "i \<le> 241 \<Longrightarrow> iterations (expand_loop debug counts i prev passes out) \<le> 240"
proof (induction debug counts i prev passes out rule: expand_loop.induct)
  case (1 debug counts iteration prev passes out)
  show ?case
    using 1 by (subst expand_loop.simps) auto
qed

lemma expand_loop_debug:
  "iterations (expand_loop d counts i prev passes out) =
   iterations (expand_loop d' counts i prev passes out')"
proof (induction d counts i prev passes out arbitrary: out' rule: expand_loop.induct)
  case (1 debug counts iteration prev passes out)
  show ?case
    using 1 by (subst expand_loop.simps, subst (2) expand_loop.simps) auto
qed

lemma iterations_expandOrdersTable:
  "iterations (expandOrdersTable debug counts) =
   iterations (expand_loop debug counts 1 (counts 0) 0 [])"
  by (simp add: expandOrdersTable_def Let_def)

lemma expandOrdersTable_iterations:
  assumes "stops_growing_after counts K"
  shows "iterations (expandOrdersTable debug counts) = min (K + 3) 240"
  using expand_loop_growth [OF assms, of 1 debug "[]"]
  by (simp add: iterations_expandOrdersTable)

lemma stops_growing_after_min: "stops_growing_after (min K) K"
  by (auto simp: stops_growing_after_def)

text \<open>
  Claim C4, as amended. For every simulated row source whose row count stops growing
  after iteration \<open>K\<close>, the loop of the expansion driver ends after exactly
  \<open>min (K + 3) 240\<close> polling iterations: after \<open>K + 3\<close> of them, not sooner, when
  \<open>K + 3\<close> is at most 240, and after 240 otherwise. For every row source whatsoever the
  loop makes at most 240 iterations.
\<close>

theorem expandOrdersTable_terminates:
  "(stops_growing_after counts K \<longrightarrow>
      iterations (expandOrdersTable debug counts) = min (K + 3) 240) \<and>
   iterations (expandOrdersTable debug counts) \<le> 240"
  by (simp add: expandOrdersTable_iterations)
     (simp add: iterations_expandOrdersTable expand_loop_bound)

theorem expandOrdersTable_terminates_witness:
  "stops_growing_after (min 2) 2 \<and> iterations (expandOrdersTable True (min 2)) = 5"
  using expandOrdersTable_terminates [of "min 2" 2 True]
  by (simp add: stops_growing_after_min)

text \<open>
  The claim as it was stated, with \<open>K + 3\<close> iterations for every \<open>K\<close>, fails from
  \<open>K = 238\<close> on. A row source that grows by one row at each of the iterations 1 to 238
  stops the loop at the cap, after 240 iterations and not after 241.
\<close>

theorem expandOrdersTable_counterexample:
  "stops_growing_after (min 238) 238 \<and>
   iterations (expandOrdersTable False (min 238)) = 240 \<and>
   iterations (expandOrdersTable False (min 238)) \<noteq> 238 + 3"
  using expandOrdersTable_iterations [OF stops_growing_after_min [of 238], of False]
  by (simp add: stops_growing_after_min)


section \<open>Row extraction\<close>





lemma fst_extractOrdersFromTable:
  "fst (extractOrdersFromTable debug rows) = fst (extract_loop debug rows 0 [] [])"
  by (simp add: extractOrdersFromTable_def split: prod.splits sum.splits)










section \<open>The debug toggle\<close>

lemma extract_loop_debug:
  "fst (extract_loop d rows i orders out) = fst (extract_loop d' rows i orders out')"
  by (induction rows arbitrary: i orders out out')
     (auto split: sum.splits row_outcome.splits)

lemma extractOrdersFromTable_debug:
  "fst (extractOrdersFromTable d rows) = fst (extractOrdersFromTable d' rows)"
  using extract_loop_debug [of d rows 0 "[]" "[]" d' "[]"]
  by (simp add: fst_extractOrdersFromTable)

lemma debugScraper_iff:
  "debugScraper process_env \<longleftrightarrow> process_env (utf16 ''DEBUG_SCRAPER'') \<noteq> Some (utf16 ''0'')"
  by (auto simp: debugScraper_def utf16_def split: option.splits)

lemma debugLog_Nil_iff: "debugLog debug message details = [] \<longleftrightarrow> \<not> debug"
  by (simp add: debugLog_def split: option.splits)

text \<open>
  Claim C8, as amended. Debug logging is enabled by default: \<^verbatim>\<open>debugLog\<close> prints
  nothing exactly when \<^verbatim>\<open>DEBUG_SCRAPER\<close> is set to \<^verbatim>\<open>0\<close>; when the variable is
  unset, or set to anything else, every call prints its line. The toggle never affects
  which orders are extracted or posted, nor the number of iterations of the expansion
  loop: it gates observability only.
\<close>

theorem debug_toggle:
  "(debugLog (debugScraper process_env) message details = [] \<longleftrightarrow>
      process_env (utf16 ''DEBUG_SCRAPER'') = Some (utf16 ''0'')) \<and>
   fst (extractOrdersFromTable (debugScraper process_env) rows) =
     fst (extractOrdersFromTable (debugScraper process_env') rows) \<and>
   iterations (expandOrdersTable (debugScraper process_env) counts) =
     iterations (expandOrdersTable (debugScraper process_env') counts) \<and>
   run_request process_env counts rows = run_request process_env' counts rows"
proof -
  have "run_request process_env counts rows = run_request process_env' counts rows"
    using extractOrdersFromTable_debug [of "debugScraper process_env" rows "debugScraper process_env'"]
    by (simp add: run_request_def Let_def)
  then show ?thesis
    using extractOrdersFromTable_debug [of "debugScraper process_env" rows "debugScraper process_env'"]
      expand_loop_debug [of "debugScraper process_env" counts 1 "counts 0" 0 "[]" "debugScraper process_env'" "[]"]
    by (simp add: debugLog_Nil_iff debugScraper_iff iterations_expandOrdersTable)
qed

theorem debug_toggle_witness:
  "debugLog (debugScraper [utf16 ''DEBUG_SCRAPER'' \<mapsto> utf16 ''0'']) (utf16 ''extract: summary'')
     (Some (Summary 2 1)) = []"
  using debug_toggle [of "[utf16 ''DEBUG_SCRAPER'' \<mapsto> utf16 ''0'']" "utf16 ''extract: summary''"
     "Some (Summary 2 1)"]
  by simp

text \<open>
  The claim as it was stated fails where the variable is unset: the default is
  \<^verbatim>\<open>'1'\<close>, and \<^verbatim>\<open>debugLog\<close> prints.
\<close>

theorem debug_default_counterexample:
  "debugLog (debugScraper Map.empty) (utf16 ''extract: summary'') (Some (Summary 2 1)) =
     [(utf16 ''[scraper:debug] extract: summary'', Some (Summary 2 1))]"
  by (simp add: debugLog_def debugScraper_def utf16_def)


section \<open>Idempotent ingestion\<close>

lemma unique_error_is_unique:
  "isUniqueConstraintError
     (Error (utf16 ''SQLITE_CONSTRAINT: UNIQUE constraint failed: orders.source_signature''))"
  by code_simp

lemma not_null_error_is_not_unique:
  "\<not> isUniqueConstraintError
     (Error (utf16 ''SQLITE_CONSTRAINT: NOT NULL constraint failed: orders.total_price''))"
  by code_simp

lemma bind_text_well_formed: "well_formed s \<Longrightarrow> bind_text s = s"
  by (induction s rule: well_formed.induct) (auto split: if_splits)

lemma stored_signature_well_formed:
  "\<forall>order \<in> set orders. well_formed (sourceSignature order) \<Longrightarrow>
   map stored_signature orders = map sourceSignature orders"
  by (simp add: stored_signature_def bind_text_well_formed)

lemma stmt_run_fresh:
  "price \<noteq> NaN \<Longrightarrow> bind_text signature \<notin> set (signatures db) \<Longrightarrow>
   \<exists>db'. stmt_run db name items price date time text signature = Inr db' \<and>
         signatures db' = signatures db @ [bind_text signature]"
  by (simp add: stmt_run_def bind_number_def signatures_def)

lemma stmt_run_present:
  "price \<noteq> NaN \<Longrightarrow> bind_text signature \<in> set (signatures db) \<Longrightarrow>
   \<exists>e. stmt_run db name items price date time text signature = Inl e \<and> isUniqueConstraintError e"
  using unique_error_is_unique by (simp add: stmt_run_def bind_number_def signatures_def)

lemma insert_loop_fresh:
  "\<forall>order \<in> set orders. totalPrice order \<noteq> NaN \<Longrightarrow>
   distinct (map stored_signature orders) \<Longrightarrow>
   set (map stored_signature orders) \<inter> set (signatures db) = {} \<Longrightarrow>
   \<exists>db'. insert_loop db orders ins skp = Inr (db', ins + length orders, skp) \<and>
         signatures db' = signatures db @ map stored_signature orders"
proof (induction orders arbitrary: db ins)
  case Nil
  then show ?case by simp
next
  case (Cons order rest)
  then have "totalPrice order \<noteq> NaN" "bind_text (sourceSignature order) \<notin> set (signatures db)"
    by (auto simp: stored_signature_def)
  from stmt_run_fresh [OF this]
  obtain db1 where run: "stmt_run db (restaurantName order) 1 (totalPrice order)
             (orderedDate (db_splitOrderedAtText (orderedAtText order)))
             (orderedTime (db_splitOrderedAtText (orderedAtText order)))
             (orderedAtText order) (sourceSignature order) = Inr db1"
    and sigs: "signatures db1 = signatures db @ [stored_signature order]"
    unfolding stored_signature_def by blast
  have "\<forall>order \<in> set rest. totalPrice order \<noteq> NaN" using Cons.prems by simp
  moreover have "distinct (map stored_signature rest)" using Cons.prems by simp
  moreover have "set (map stored_signature rest) \<inter> set (signatures db1) = {}"
    using Cons.prems sigs by auto
  ultimately obtain db' where
    "insert_loop db1 rest (ins + 1) skp = Inr (db', ins + 1 + length rest, skp)"
    "signatures db' = signatures db1 @ map stored_signature rest"
    using Cons.IH [of db1 "ins + 1"] by blast
  with run sigs show ?case by simp
qed

lemma insert_loop_present:
  "\<forall>order \<in> set orders. totalPrice order \<noteq> NaN \<Longrightarrow>
   set (map stored_signature orders) \<subseteq> set (signatures db) \<Longrightarrow>
   insert_loop db orders ins skp = Inr (db, ins, skp + length orders)"
proof (induction orders arbitrary: skp)
  case Nil
  then show ?case by simp
next
  case (Cons order rest)
  then have "totalPrice order \<noteq> NaN" "bind_text (sourceSignature order) \<in> set (signatures db)"
    by (auto simp: stored_signature_def)
  from stmt_run_present [OF this]
  obtain e where "stmt_run db (restaurantName order) 1 (totalPrice order)
             (orderedDate (db_splitOrderedAtText (orderedAtText order)))
             (orderedTime (db_splitOrderedAtText (orderedAtText order)))
             (orderedAtText order) (sourceSignature order) = Inl e"
    and "isUniqueConstraintError e"
    by blast
  moreover have "insert_loop db rest ins (skp + 1) = Inr (db, ins, skp + 1 + length rest)"
    using Cons by simp
  ultimately show ?case by simp
qed

text \<open>
  Claim C7, as amended. Re-ingest is idempotent through the uniqueness of the
  signature: for every batch of orders none of which has the price NaN, with signatures
  that are pairwise distinct as the database stores them, none of them stored yet, the
  first \<^verbatim>\<open>insertOrders\<close> call returns \<open>inserted = N\<close>, \<open>skipped = 0\<close> and stores the
  signatures of the batch, and a second call with the same batch returns
  \<open>inserted = 0\<close>, \<open>skipped = N\<close> and leaves the database as it was. Neither call
  throws: a violation of the uniqueness is counted as skipped. Signatures that hold no
  surrogate outside a pair are stored as they are.
\<close>

theorem insertOrders_idempotent:
  assumes "\<forall>order \<in> set orders. totalPrice order \<noteq> NaN"
    and "distinct (map stored_signature orders)"
    and "set (map stored_signature orders) \<inter> set (signatures db) = {}"
  shows "(\<exists>db1.
      insertOrders db orders = (db1, Inr \<lparr>inserted = length orders, skipped = 0\<rparr>) \<and>
      signatures db1 = signatures db @ map stored_signature orders \<and>
      insertOrders db1 orders = (db1, Inr \<lparr>inserted = 0, skipped = length orders\<rparr>)) \<and>
    ((\<forall>order \<in> set orders. well_formed (sourceSignature order)) \<longrightarrow>
      map stored_signature orders = map sourceSignature orders)"
proof (cases "orders = []")
  case True
  then show ?thesis by (simp add: insertOrders_def)
next
  case False
  from insert_loop_fresh [OF assms, of 0 0]
  obtain db1 where 1: "insert_loop db orders 0 0 = Inr (db1, length orders, 0)"
    and 2: "signatures db1 = signatures db @ map stored_signature orders"
    by auto
  from 2 have "set (map stored_signature orders) \<subseteq> set (signatures db1)" by simp
  then have "insert_loop db1 orders 0 0 = Inr (db1, 0, length orders)"
    using insert_loop_present [OF assms(1), of db1 0 0] by simp
  with 1 2 False show ?thesis
    using stored_signature_well_formed [of orders] by (simp add: insertOrders_def)
qed

lemma example_batch:
  "\<forall>order \<in> set [payload (utf16 ''A'') (Finite 1) (utf16 ''A__t__1''),
                  payload (utf16 ''B'') (Finite 1) (utf16 ''B__t__1'')].
     totalPrice order \<noteq> NaN \<and> well_formed (sourceSignature order)"
  "map stored_signature [payload (utf16 ''A'') (Finite 1) (utf16 ''A__t__1''),
                        payload (utf16 ''B'') (Finite 1) (utf16 ''B__t__1'')] =
     [utf16 ''A__t__1'', utf16 ''B__t__1'']"
  "signatures empty_database = []"
  by code_simp+

theorem insertOrders_idempotent_witness:
  "\<exists>db1.
     insertOrders empty_database
       [payload (utf16 ''A'') (Finite 1) (utf16 ''A__t__1''),
        payload (utf16 ''B'') (Finite 1) (utf16 ''B__t__1'')] =
       (db1, Inr \<lparr>inserted = 2, skipped = 0\<rparr>) \<and>
     signatures db1 = [utf16 ''A__t__1'', utf16 ''B__t__1''] \<and>
     insertOrders db1
       [payload (utf16 ''A'') (Finite 1) (utf16 ''A__t__1''),
        payload (utf16 ''B'') (Finite 1) (utf16 ''B__t__1'')] =
       (db1, Inr \<lparr>inserted = 0, skipped = 2\<rparr>)"
  using insertOrders_idempotent
    [of "[payload (utf16 ''A'') (Finite 1) (utf16 ''A__t__1''),
          payload (utf16 ''B'') (Finite 1) (utf16 ''B__t__1'')]"
        empty_database]
    example_batch
  by (auto simp: utf16_def numeral_2_eq_2)

text \<open>
  The claim as it was stated fails at an order with the price NaN, where the first call
  throws and stores nothing, and at two orders whose signatures are the two halves of a
  surrogate pair, which are stored as the same text: the first call inserts one and
  skips the other.
\<close>

theorem insertOrders_counterexample:
  "insertOrders empty_database [payload (utf16 ''A'') NaN (utf16 ''A__t__NaN'')] =
     (empty_database,
      Inl (Error (utf16 ''SQLITE_CONSTRAINT: NOT NULL constraint failed: orders.total_price''))) \<and>
   distinct (map sourceSignature
     [payload (utf16 ''A'') (Finite 1) [0xD800], payload (utf16 ''A'') (Finite 1) [0xDC00]]) \<and>
   snd (insertOrders empty_database
     [payload (utf16 ''A'') (Finite 1) [0xD800], payload (utf16 ''A'') (Finite 1) [0xDC00]]) =
     Inr \<lparr>inserted = 1, skipped = 1\<rparr>"
  by code_simp

end
